theory Spec2Isabelle
  imports Main
begin

section \<open>The combo-box dropdown (\<open>ComboBoxDropdown\<close>)\<close>

text \<open>
  The element \<open>vaadin-combo-box-dropdown\<close> owns an overlay, an internal scroller, a list
  of items and a handful of flags. Each method of the class is embedded as a function
  on a record of the element's properties; a JavaScript \<open>TypeError\<close> is the \<open>Inl\<close>
  branch of a sum. Private names lose their leading underscores (\<open>_items\<close> is
  \<open>items\<close>, \<open>__emptyItems\<close> is \<open>emptyItems\<close>, \<open>_openedChanged\<close> is
  \<open>openedChanged\<close>), since an Isabelle name starts with a letter.
\<close>

subsection \<open>JavaScript values\<close>

text \<open>
  Items are values of arbitrary shape: primitives, arrays and plain objects (own data
  properties in insertion order). Numbers are integers and strings are ASCII.
\<close>

datatype js_error = TypeError

datatype jsval =
    Undefined
  | Null
  | Bool bool
  | Num int
  | Str string
  | Arr "jsval list"
  | Obj "(string \<times> jsval) list"

text \<open>Truthiness, as \<open>if (v)\<close>, \<open>v && \<dots>\<close> and \<open>v || \<dots>\<close> test it.\<close>

fun truthy :: "jsval \<Rightarrow> bool" where
  "truthy Undefined = False"
| "truthy Null = False"
| "truthy (Bool b) = b"
| "truthy (Num n) = (n \<noteq> 0)"
| "truthy (Str s) = (s \<noteq> [])"
| "truthy (Arr xs) = True"
| "truthy (Obj ps) = True"

text \<open>Decimal digits of a number, for \<open>Number.prototype.toString\<close> and \<open>n + 'px'\<close>.\<close>

definition digit_char :: "nat \<Rightarrow> char" where
  "digit_char d = ''0123456789'' ! (d mod 10)"

function string_of_nat :: "nat \<Rightarrow> string" where
  "string_of_nat n =
     (if n < 10 then [digit_char n] else string_of_nat (n div 10) @ [digit_char (n mod 10)])"
  by pat_completeness auto
termination
  by (relation "measure id") auto

declare string_of_nat.simps [simp del]

definition string_of_int :: "int \<Rightarrow> string" where
  "string_of_int i = (if i < 0 then CHR ''-'' # string_of_nat (nat (- i)) else string_of_nat (nat i))"

text \<open>
  \<open>v.toString()\<close>. On \<open>undefined\<close> and \<open>null\<close> the property access raises. A plain
  object inherits \<open>Object.prototype.toString\<close> unless an own property named
  \<open>toString\<close> shadows it; the values here hold no functions, so a shadowing property is
  not callable and the call raises. An array joins the string conversions of its
  elements with commas, \<open>undefined\<close> and \<open>null\<close> elements giving the empty string.
\<close>

fun js_toString :: "jsval \<Rightarrow> js_error + string"
  and js_join :: "jsval list \<Rightarrow> js_error + string" where
  "js_toString Undefined = Inl TypeError"
| "js_toString Null = Inl TypeError"
| "js_toString (Bool b) = Inr (if b then ''true'' else ''false'')"
| "js_toString (Num n) = Inr (string_of_int n)"
| "js_toString (Str s) = Inr s"
| "js_toString (Arr xs) = js_join xs"
| "js_toString (Obj ps) =
     (if ''toString'' \<in> fst ` set ps then Inl TypeError else Inr ''[object Object]'')"
| "js_join [] = Inr []"
| "js_join (x # xs) =
     (case (if x = Undefined \<or> x = Null then Inr [] else js_toString x) of
        Inl e \<Rightarrow> Inl e
      | Inr a \<Rightarrow>
          (if xs = [] then Inr a
           else (case js_join xs of Inl e \<Rightarrow> Inl e | Inr b \<Rightarrow> Inr (a @ '','' @ b))))"

text \<open>\<open>String.prototype.toLowerCase\<close> on ASCII.\<close>

definition lower_char :: "char \<Rightarrow> char" where
  "lower_char c =
     (case map_of (zip ''ABCDEFGHIJKLMNOPQRSTUVWXYZ'' ''abcdefghijklmnopqrstuvwxyz'') c of
        Some d \<Rightarrow> d
      | None \<Rightarrow> c)"

definition toLowerCase :: "string \<Rightarrow> string" where
  "toLowerCase s = map lower_char s"

text \<open>\<open>xs[i]\<close> on an array: \<open>undefined\<close> outside the array.\<close>

definition js_index :: "jsval list \<Rightarrow> int \<Rightarrow> jsval" where
  "js_index xs i = (if 0 \<le> i \<and> i < int (length xs) then xs ! nat i else Undefined)"

text \<open>
  A string-valued property that may be \<open>undefined\<close> is a \<open>string option\<close>; it is truthy
  when it is a non-empty string.
\<close>

definition truthy_path :: "string option \<Rightarrow> bool" where
  "truthy_path p = (case p of None \<Rightarrow> False | Some s \<Rightarrow> s \<noteq> [])"

subsection \<open>Events, the scroller and the element's properties\<close>

record event =
  etype :: string
  detail :: jsval
  bubbles :: bool
  composed :: bool

text \<open>\<open>new CustomEvent(type)\<close>: no detail, not bubbling, not composed.\<close>

definition CustomEvent :: "string \<Rightarrow> event" where
  "CustomEvent t = \<lparr>etype = t, detail = Null, bubbles = False, composed = False\<rparr>"

text \<open>
  \<open>new CustomEvent(type, {detail: d})\<close>: a member left undefined takes its default, so
  an undefined \<open>d\<close> gives the detail \<open>null\<close>. An event that is no \<open>CustomEvent\<close> has no
  \<open>detail\<close> property and reads as \<open>undefined\<close> there; the detail of a \<open>CustomEvent\<close>
  is never undefined.
\<close>

definition CustomEventWith :: "string \<Rightarrow> jsval \<Rightarrow> event" where
  "CustomEventWith t d = (CustomEvent t)\<lparr>detail := (if d = Undefined then Null else d)\<rparr>"

text \<open>The object handed to \<open>scroller.setProperties\<close>.\<close>

record scroller_properties =
  sc_items :: "jsval list option"
  sc_opened :: "bool option"
  sc_loading :: bool
  sc_selectedItem :: jsval
  sc_itemIdPath :: "string option"
  sc_focusedIndex :: int
  sc_renderer :: "nat option"
  sc_theme :: "string option"

text \<open>
  The scroller element is a collaborator; what the dropdown does to it is recorded:
  every \<open>setProperties\<close> payload (oldest first), the \<open>max-height\<close> style, every
  \<open>scrollIntoView\<close> request, and the index its virtualizer last scrolled to.
\<close>

record scroller =
  pushed :: "scroller_properties list"
  maxHeight :: "string option"
  scrollRequests :: "int list"
  scrolledTo :: "int option"

definition new_scroller :: scroller where
  "new_scroller = \<lparr>pushed = [], maxHeight = None, scrollRequests = [], scrolledTo = None\<rparr>"

text \<open>
  The declared properties with their types, \<open>None\<close> for \<open>undefined\<close>; the position
  target is known by its \<open>clientWidth\<close>, a renderer function by a token. The last five
  fields are the surroundings the methods touch: the inline style of \<open>this.$.overlay\<close>,
  the number of \<open>_updatePosition()\<close> calls on it, \<open>getComputedStyle(this).getPropertyValue\<close>,
  the events dispatched on the element (oldest first) and the event types the element
  listens for on its scroller.
\<close>

record dropdown =
  opened :: "bool option"
  positionTarget :: "nat option"
  renderer :: "nat option"
  loading :: bool
  theme :: "string option"
  selectedItem :: jsval
  items :: "jsval list option"
  focusedIndex :: int
  focusedItem :: jsval
  itemLabelPath :: "string option"
  itemValuePath :: "string option"
  scroller :: "scroller option"
  itemIdPath :: "string option"
  overlayOpened :: "bool option"
  hostTagName :: "string option"
  emptyItems :: bool
  overlayStyle :: "string \<rightharpoonup> string"
  overlayPositionUpdates :: nat
  computedStyle :: "string \<Rightarrow> string"
  dispatched :: "event list"
  scrollerListeners :: "string list"

text \<open>The element as constructed, with the default values of \<open>static get properties()\<close>.\<close>

definition fresh :: "(string \<Rightarrow> string) \<Rightarrow> dropdown" where
  "fresh css =
     \<lparr>opened = None, positionTarget = None, renderer = None, loading = False, theme = None,
      selectedItem = Undefined, items = None, focusedIndex = - 1, focusedItem = Undefined,
      itemLabelPath = Some ''label'', itemValuePath = Some ''value'', scroller = None,
      itemIdPath = None, overlayOpened = None, hostTagName = None, emptyItems = False,
      overlayStyle = Map.empty, overlayPositionUpdates = 0, computedStyle = css,
      dispatched = [], scrollerListeners = []\<rparr>"

definition dispatchEvent :: "event \<Rightarrow> dropdown \<Rightarrow> dropdown" where
  "dispatchEvent e s = s\<lparr>dispatched := dispatched s @ [e]\<rparr>"

subsection \<open>Overlay width\<close>

text \<open>A template literal prints an undefined \<open>__hostTagName\<close> as \<open>undefined\<close>.\<close>

definition propPrefix :: "dropdown \<Rightarrow> string" where
  "propPrefix s = (case hostTagName s of None \<Rightarrow> ''undefined'' | Some t \<Rightarrow> t) @ ''-overlay''"

definition widthProp :: "dropdown \<Rightarrow> string" where
  "widthProp s = ''--'' @ propPrefix s @ ''-width''"

definition defaultWidthProp :: "dropdown \<Rightarrow> string" where
  "defaultWidthProp s = ''--_'' @ propPrefix s @ ''-default-width''"

definition setOverlayWidth :: "dropdown \<Rightarrow> dropdown" where
  "setOverlayWidth s =
     (case positionTarget s of
        None \<Rightarrow> s
      | Some clientWidth \<Rightarrow>
          (let inputWidth = string_of_nat clientWidth @ ''px'';
               customWidth = computedStyle s (widthProp s);
               st1 = (overlayStyle s)(defaultWidthProp s \<mapsto> inputWidth);
               st2 = (if customWidth = [] then st1(widthProp s := None)
                      else st1(widthProp s \<mapsto> customWidth))
           in s\<lparr>overlayStyle := st2, overlayPositionUpdates := Suc (overlayPositionUpdates s)\<rparr>))"

definition positionTargetChanged :: "nat option \<Rightarrow> dropdown \<Rightarrow> dropdown" where
  "positionTargetChanged target s = (if target \<noteq> None then setOverlayWidth s else s)"

text \<open>
  Modelled from the spec: the style rule of the overlay that reads the two custom
  properties is not among the sources. The width is the explicit override when it is set,
  otherwise the default width that mirrors the anchor, otherwise automatic.
\<close>

definition overlayWidth :: "dropdown \<Rightarrow> string" where
  "overlayWidth s =
     (case overlayStyle s (widthProp s) of
        Some w \<Rightarrow> w
      | None \<Rightarrow> (case overlayStyle s (defaultWidthProp s) of Some w \<Rightarrow> w | None \<Rightarrow> ''auto''))"

subsection \<open>Opening and closing\<close>

definition openedEvent :: event where
  "openedEvent = (CustomEvent ''vaadin-combo-box-dropdown-opened'')\<lparr>bubbles := True, composed := True\<rparr>"

definition closedEvent :: event where
  "closedEvent = (CustomEvent ''vaadin-combo-box-dropdown-closed'')\<lparr>bubbles := True, composed := True\<rparr>"

text \<open>
  The observer of \<open>_overlayOpened\<close>. Reading \<open>this._scroller.style\<close> raises when there is
  no scroller.
\<close>

definition openedChanged :: "bool \<Rightarrow> bool option \<Rightarrow> dropdown \<Rightarrow> js_error + dropdown" where
  "openedChanged opn wasOpened s =
     (if opn then
        (let s1 = setOverlayWidth s in
         case scroller s1 of
           None \<Rightarrow> Inl TypeError
         | Some sc \<Rightarrow>
             (let v = computedStyle s1 (''--'' @ propPrefix s1 @ ''-max-height'');
                  sc' = sc\<lparr>maxHeight := Some (if v \<noteq> [] then v else ''65vh'')\<rparr>
              in Inr (dispatchEvent openedEvent (s1\<lparr>scroller := Some sc'\<rparr>))))
      else if wasOpened = Some True \<and> \<not> emptyItems s then Inr (dispatchEvent closedEvent s)
      else Inr s)"

text \<open>
  Assigning \<open>this._overlayOpened\<close>: the property system stores the value and, when it
  differs from the old one, runs the observer before the assignment returns.
\<close>

definition set_overlayOpened :: "bool \<Rightarrow> dropdown \<Rightarrow> js_error + dropdown" where
  "set_overlayOpened v s =
     (if overlayOpened s = Some v then Inr s
      else openedChanged v (overlayOpened s) (s\<lparr>overlayOpened := Some v\<rparr>))"

definition hasItems :: "jsval list option \<Rightarrow> bool" where
  "hasItems xs = (case xs of None \<Rightarrow> False | Some ys \<Rightarrow> ys \<noteq> [])"

definition openedOrItemsChanged ::
  "bool option \<Rightarrow> jsval list option \<Rightarrow> bool \<Rightarrow> dropdown \<Rightarrow> js_error + dropdown" where
  "openedOrItemsChanged opn its ldg s =
     (let s1 = (if \<not> hasItems its then s\<lparr>emptyItems := True\<rparr> else s) in
      case set_overlayOpened (opn = Some True \<and> (ldg \<or> hasItems its)) s1 of
        Inl e \<Rightarrow> Inl e
      | Inr s2 \<Rightarrow> Inr (s2\<lparr>emptyItems := False\<rparr>))"

definition isOverlayHidden :: "dropdown \<Rightarrow> bool" where
  "isOverlayHidden s = (\<not> loading s \<and> \<not> hasItems (items s))"

definition disconnectedCallback :: "dropdown \<Rightarrow> js_error + dropdown" where
  "disconnectedCallback s = set_overlayOpened False s"

subsection \<open>Focused item and item labels\<close>

text \<open>\<open>this._items[focusedIndex]\<close> raises when \<open>_items\<close> is undefined.\<close>

definition getFocusedItem :: "int \<Rightarrow> dropdown \<Rightarrow> js_error + jsval" where
  "getFocusedItem idx s =
     (if idx \<ge> 0 then
        (case items s of None \<Rightarrow> Inl TypeError | Some xs \<Rightarrow> Inr (js_index xs idx))
      else Inr Undefined)"

text \<open>
  \<open>this.get(path, root)\<close> belongs to the element base class of the Polymer library; the
  methods below take it as the parameter \<open>get\<close>.
\<close>

type_synonym path_get = "string \<Rightarrow> jsval \<Rightarrow> jsval"

definition labelPath :: "dropdown \<Rightarrow> string option \<Rightarrow> string option" where
  "labelPath s itemLabelPath' = (if truthy_path itemLabelPath' then itemLabelPath' else itemLabelPath s)"

definition getItemLabel :: "path_get \<Rightarrow> dropdown \<Rightarrow> jsval \<Rightarrow> string option \<Rightarrow> js_error + jsval" where
  "getItemLabel get s item itemLabelPath' =
     (let label = (case labelPath s itemLabelPath' of
                     Some p \<Rightarrow> (if truthy item \<and> p \<noteq> [] then get p item else Undefined)
                   | None \<Rightarrow> Undefined)
      in if label = Undefined \<or> label = Null then
           (if truthy item then
              (case js_toString item of Inl e \<Rightarrow> Inl e | Inr str \<Rightarrow> Inr (Str str))
            else Inr (Str []))
         else Inr label)"

text \<open>
  The two sides of the comparison in \<open>indexOfLabel\<close>: the label of an item, and the label
  searched for, each through \<open>.toString().toLowerCase()\<close>.
\<close>

definition lowered :: "jsval \<Rightarrow> js_error + string" where
  "lowered v = (case js_toString v of Inl e \<Rightarrow> Inl e | Inr str \<Rightarrow> Inr (toLowerCase str))"

definition loweredLabel :: "path_get \<Rightarrow> dropdown \<Rightarrow> jsval \<Rightarrow> js_error + string" where
  "loweredLabel get s item =
     (case getItemLabel get s item None of Inl e \<Rightarrow> Inl e | Inr l \<Rightarrow> lowered l)"

function indexOfLabel_loop ::
  "path_get \<Rightarrow> dropdown \<Rightarrow> jsval \<Rightarrow> jsval list \<Rightarrow> nat \<Rightarrow> js_error + int" where
  "indexOfLabel_loop get s label xs i =
     (if i < length xs then
        (case loweredLabel get s (xs ! i) of
           Inl e \<Rightarrow> Inl e
         | Inr a \<Rightarrow>
             (case lowered label of
                Inl e \<Rightarrow> Inl e
              | Inr b \<Rightarrow> (if a = b then Inr (int i) else indexOfLabel_loop get s label xs (Suc i))))
      else Inr (- 1))"
  by pat_completeness auto
termination
  by (relation "measure (\<lambda>(get, s, label, xs, i). length xs - i)") auto

declare indexOfLabel_loop.simps [simp del]

definition indexOfLabel :: "path_get \<Rightarrow> dropdown \<Rightarrow> jsval \<Rightarrow> js_error + int" where
  "indexOfLabel get s label =
     (case items s of
        Some xs \<Rightarrow> (if truthy label then indexOfLabel_loop get s label xs 0 else Inr (- 1))
      | None \<Rightarrow> Inr (- 1))"

subsection \<open>The scroller\<close>

definition scrollIntoView :: "int \<Rightarrow> dropdown \<Rightarrow> dropdown" where
  "scrollIntoView index s =
     (case scroller s of
        None \<Rightarrow> s
      | Some sc \<Rightarrow> s\<lparr>scroller := Some (sc\<lparr>scrollRequests := scrollRequests sc @ [index]\<rparr>)\<rparr>)"

definition adjustScrollPosition :: "dropdown \<Rightarrow> dropdown" where
  "adjustScrollPosition s =
     (if opened s = Some True \<and> items s \<noteq> None then scrollIntoView (focusedIndex s) s else s)"

definition updateScroller ::
  "scroller option \<Rightarrow> jsval list option \<Rightarrow> bool option \<Rightarrow> bool \<Rightarrow> jsval \<Rightarrow> string option \<Rightarrow>
   int \<Rightarrow> nat option \<Rightarrow> string option \<Rightarrow> scroller option" where
  "updateScroller scroller' items' opened' loading' selectedItem' itemIdPath' focusedIndex'
     renderer' theme' =
     (case scroller' of
        None \<Rightarrow> None
      | Some sc \<Rightarrow>
          Some (sc\<lparr>pushed := pushed sc @
            [\<lparr>sc_items = (if opened' = Some True then items' else Some []),
              sc_opened = opened', sc_loading = loading', sc_selectedItem = selectedItem',
              sc_itemIdPath = itemIdPath', sc_focusedIndex = focusedIndex',
              sc_renderer = renderer', sc_theme = theme'\<rparr>]\<rparr>))"

text \<open>The observer \<open>__updateScroller(_scroller, _items, opened, \<dots>)\<close> run on the element.\<close>

definition observe_updateScroller :: "dropdown \<Rightarrow> dropdown" where
  "observe_updateScroller s =
     s\<lparr>scroller := updateScroller (scroller s) (items s) (opened s) (loading s) (selectedItem s)
          (itemIdPath s) (focusedIndex s) (renderer s) (theme s)\<rparr>"

definition forwardScrollerEvent :: "event \<Rightarrow> dropdown \<Rightarrow> dropdown" where
  "forwardScrollerEvent e s = dispatchEvent (CustomEventWith (etype e) (detail e)) s"

text \<open>An event fired on the scroller reaches the listeners registered for its type.\<close>

definition scrollerFires :: "event \<Rightarrow> dropdown \<Rightarrow> dropdown" where
  "scrollerFires e s = (if etype e \<in> set (scrollerListeners s) then forwardScrollerEvent e s else s)"

text \<open>
  Modelled from the spec: the virtualizer behind \<open>_scroller.__virtualizer\<close> is not among
  the sources. Over \<open>N\<close> items its \<open>scrollToIndex(i)\<close> clamps \<open>i\<close> to the nearest index of
  \<open>[0, N)\<close> and never throws; over no items there is no index to scroll to.
\<close>

definition virtualizer_scrollToIndex :: "nat \<Rightarrow> int \<Rightarrow> js_error + int option" where
  "virtualizer_scrollToIndex N i =
     (if N = 0 then Inr None else Inr (Some (max 0 (min (int N - 1) i))))"

text \<open>The items the scroller holds: those of the last payload it was given.\<close>

definition scrollerSize :: "scroller \<Rightarrow> nat" where
  "scrollerSize sc =
     (if pushed sc = [] then 0
      else (case sc_items (last (pushed sc)) of None \<Rightarrow> 0 | Some xs \<Rightarrow> length xs))"

text \<open>
  The helper \<open>scrollToIndex(comboBox, index)\<close>, with \<open>comboBox.$.dropdown\<close> the element:
  reading \<open>__virtualizer\<close> of an undefined scroller raises.
\<close>

definition scrollToIndex :: "dropdown \<Rightarrow> int \<Rightarrow> js_error + dropdown" where
  "scrollToIndex s index =
     (case scroller s of
        None \<Rightarrow> Inl TypeError
      | Some sc \<Rightarrow>
          (case virtualizer_scrollToIndex (scrollerSize sc) index of
             Inl e \<Rightarrow> Inl e
           | Inr None \<Rightarrow> Inr s
           | Inr (Some t) \<Rightarrow> Inr (s\<lparr>scroller := Some (sc\<lparr>scrolledTo := Some t\<rparr>)\<rparr>)))"

subsection \<open>Property changes and the life cycle\<close>

text \<open>
  A change of \<open>opened\<close>, \<open>_items\<close> or \<open>loading\<close> on a ready element runs the two
  observers of \<open>static get observers()\<close> in their order, before the assignment returns.
\<close>

definition observers :: "dropdown \<Rightarrow> js_error + dropdown" where
  "observers s =
     (case openedOrItemsChanged (opened s) (items s) (loading s) s of
        Inl e \<Rightarrow> Inl e
      | Inr s1 \<Rightarrow> Inr (observe_updateScroller s1))"

text \<open>
  Assigning a property with its old value changes nothing and runs nothing. An array
  assigned to \<open>_items\<close> is taken to be a new array.
\<close>

definition set_opened :: "bool \<Rightarrow> dropdown \<Rightarrow> js_error + dropdown" where
  "set_opened v s = (if opened s = Some v then Inr s else observers (s\<lparr>opened := Some v\<rparr>))"

definition set_loading :: "bool \<Rightarrow> dropdown \<Rightarrow> js_error + dropdown" where
  "set_loading v s = (if loading s = v then Inr s else observers (s\<lparr>loading := v\<rparr>))"

definition set_items :: "jsval list option \<Rightarrow> dropdown \<Rightarrow> js_error + dropdown" where
  "set_items v s = (if v = None \<and> items s = None then Inr s else observers (s\<lparr>items := v\<rparr>))"

text \<open>\<open>focusedItem\<close> is computed from \<open>_getFocusedItem(_focusedIndex)\<close>.\<close>

definition set_focusedIndex :: "int \<Rightarrow> dropdown \<Rightarrow> js_error + dropdown" where
  "set_focusedIndex v s =
     (if focusedIndex s = v then Inr s
      else (case getFocusedItem v (s\<lparr>focusedIndex := v\<rparr>) of
              Inl e \<Rightarrow> Inl e
            | Inr item \<Rightarrow> Inr (observe_updateScroller (s\<lparr>focusedIndex := v, focusedItem := item\<rparr>))))"

definition set_positionTarget :: "nat option \<Rightarrow> dropdown \<Rightarrow> dropdown" where
  "set_positionTarget v s =
     (if v = None \<and> positionTarget s = None then s
      else positionTargetChanged v (s\<lparr>positionTarget := v\<rparr>))"

definition is_name :: string where
  "is_name = ''vaadin-combo-box-dropdown''"

text \<open>\<open>str.replace(pattern, '')\<close> with a string pattern: the first occurrence goes.\<close>

fun remove_first :: "string \<Rightarrow> string \<Rightarrow> string" where
  "remove_first p [] = []"
| "remove_first p (c # cs) =
     (if take (length p) (c # cs) = p then drop (length p) (c # cs) else c # remove_first p cs)"

text \<open>
  \<open>ready()\<close>: \<open>super.ready()\<close> makes the first pass of the property effects (the computed
  \<open>focusedItem\<close>, then the observers); the element then derives its host tag name, creates
  the scroller, assigns \<open>_scroller\<close> (which runs \<open>__updateScroller\<close>) and registers its
  two listeners on it.
\<close>

definition superReady :: "dropdown \<Rightarrow> js_error + dropdown" where
  "superReady s =
     (case getFocusedItem (focusedIndex s) s of
        Inl e \<Rightarrow> Inl e
      | Inr item \<Rightarrow> observers ((positionTargetChanged (positionTarget s) s)\<lparr>focusedItem := item\<rparr>))"

definition ready :: "dropdown \<Rightarrow> js_error + dropdown" where
  "ready s =
     (case superReady s of
        Inl e \<Rightarrow> Inl e
      | Inr s1 \<Rightarrow>
          (let s2 = s1\<lparr>hostTagName := Some (remove_first ''-dropdown'' is_name)\<rparr>;
               s3 = observe_updateScroller (s2\<lparr>scroller := Some new_scroller\<rparr>)
           in Inr (s3\<lparr>scrollerListeners := [''selection-changed'', ''index-requested'']\<rparr>)))"

text \<open>What can happen to a ready element, and runs of such happenings.\<close>

datatype action =
    SetOpened bool
  | SetItems "jsval list option"
  | SetLoading bool
  | SetFocusedIndex int
  | SetPositionTarget "nat option"
  | Detach
  | ScrollerFires event

fun step :: "action \<Rightarrow> dropdown \<Rightarrow> js_error + dropdown" where
  "step (SetOpened v) s = set_opened v s"
| "step (SetItems v) s = set_items v s"
| "step (SetLoading v) s = set_loading v s"
| "step (SetFocusedIndex v) s = set_focusedIndex v s"
| "step (SetPositionTarget v) s = Inr (set_positionTarget v s)"
| "step Detach s = disconnectedCallback s"
| "step (ScrollerFires e) s = Inr (scrollerFires e s)"

fun exec :: "action list \<Rightarrow> dropdown \<Rightarrow> js_error + dropdown" where
  "exec [] s = Inr s"
| "exec (a # as) s = (case step a s of Inl e \<Rightarrow> Inl e | Inr s' \<Rightarrow> exec as s')"

subsection \<open>Predicates and sample inputs of the statements\<close>

text \<open>The overlay follows the inputs: \<open>_overlayOpened\<close> is \<open>opened && (loading || hasItems)\<close>.\<close>

definition overlaySynced :: "dropdown \<Rightarrow> bool" where
  "overlaySynced s =
     (overlayOpened s = Some (opened s = Some True \<and> (loading s \<or> hasItems (items s))))"

text \<open>Between two calls the element has its scroller and the one-shot flag is down.\<close>

definition settled :: "dropdown \<Rightarrow> bool" where
  "settled s = (scroller s \<noteq> None \<and> \<not> emptyItems s)"

text \<open>What a method that only touches the overlay, the scroller or the events keeps.\<close>

definition kept :: "dropdown \<Rightarrow> dropdown \<Rightarrow> bool" where
  "kept s s' =
     (opened s' = opened s \<and> items s' = items s \<and> loading s' = loading s \<and>
      emptyItems s' = emptyItems s \<and> overlayOpened s' = overlayOpened s \<and>
      scrollerListeners s' = scrollerListeners s \<and> (scroller s \<noteq> None \<longrightarrow> scroller s' \<noteq> None))"

text \<open>The focused index and the focused item are as they were.\<close>

definition focusKept :: "dropdown \<Rightarrow> dropdown \<Rightarrow> bool" where
  "focusKept s s' = (focusedIndex s' = focusedIndex s \<and> focusedItem s' = focusedItem s)"

text \<open>A page that sets no custom property, and the element made ready on it.\<close>

definition plain_css :: "string \<Rightarrow> string" where
  "plain_css name = []"

definition started :: dropdown where
  "started = projr (ready (fresh plain_css))"

text \<open>
  The ready element after it was given one item and opened; the same after it was then
  detached; and the ready element opened without items.
\<close>

definition shown :: dropdown where
  "shown = projr (exec [SetItems (Some [Str ''a'']), SetOpened True] started)"

definition detached :: dropdown where
  "detached = projr (exec [SetItems (Some [Str ''a'']), SetOpened True, Detach] started)"

definition opened_empty :: dropdown where
  "opened_empty = projr (exec [SetOpened True] started)"



text \<open>A payload of the scroller carries items only when it says opened.\<close>

definition payloadGated :: "scroller_properties \<Rightarrow> bool" where
  "payloadGated p = (sc_opened p = Some True \<or> sc_items p = Some [])"

definition scrollerGated :: "dropdown \<Rightarrow> bool" where
  "scrollerGated s = (case scroller s of None \<Rightarrow> True | Some sc \<Rightarrow> list_all payloadGated (pushed sc))"

text \<open>
  A sample resolver to run the label methods on concrete items: the own property of a
  plain object under a one-segment path, \<open>undefined\<close> elsewhere.
\<close>

definition ownProperty :: path_get where
  "ownProperty p v =
     (case v of
        Obj ps \<Rightarrow> (case map_of ps p of Some x \<Rightarrow> x | None \<Rightarrow> Undefined)
      | _ \<Rightarrow> Undefined)"

text \<open>
  The values whose string conversion raises: an object with an own \<open>toString\<close>
  property, alone or within an array.
\<close>

fun shadowsToString :: "jsval \<Rightarrow> bool" where
  "shadowsToString (Obj ps) = (''toString'' \<in> fst ` set ps)"
| "shadowsToString (Arr xs) = (\<exists>x \<in> set xs. shadowsToString x)"
| "shadowsToString v = False"

text \<open>An item whose label equals the searched label, case set aside.\<close>

definition labelMatches :: "path_get \<Rightarrow> dropdown \<Rightarrow> jsval \<Rightarrow> jsval \<Rightarrow> bool" where
  "labelMatches get s label item =
     (case loweredLabel get s item of
        Inl e \<Rightarrow> False
      | Inr a \<Rightarrow> (case lowered label of Inl e \<Rightarrow> False | Inr b \<Rightarrow> a = b))"

text \<open>
  Further sample inputs: the scroller of the shown element; the ready element given
  three items and opened, and its scroller; a page that sets the width
  override; the ready element anchored to a target 120 pixels wide, on either page; the
  ready element holding three items; three scroller events.
\<close>

definition shown_scroller :: scroller where
  "shown_scroller = the (scroller shown)"

definition stocked :: dropdown where
  "stocked =
     projr (exec [SetItems (Some [Str ''a'', Str ''b'', Str ''c'']), SetOpened True] started)"

definition stocked_scroller :: scroller where
  "stocked_scroller = the (scroller stocked)"

definition wide_css :: "string \<Rightarrow> string" where
  "wide_css name = (if name = ''--vaadin-combo-box-overlay-width'' then ''20em'' else [])"

definition anchored :: dropdown where
  "anchored = started\<lparr>positionTarget := Some 120\<rparr>"

definition anchored_wide :: dropdown where
  "anchored_wide = started\<lparr>positionTarget := Some 120, computedStyle := wide_css\<rparr>"

text \<open>
  The ready element given two items and the focused index 1, and the same after its
  items were replaced.
\<close>

definition focused :: dropdown where
  "focused = projr (exec [SetItems (Some [Str ''a'', Str ''b'']), SetFocusedIndex 1] started)"

definition restocked :: dropdown where
  "restocked =
     projr (exec [SetItems (Some [Str ''a'', Str ''b'']), SetFocusedIndex 1,
                  SetItems (Some [Str ''x'', Str ''y''])] started)"

definition listed :: dropdown where
  "listed = started\<lparr>items := Some [Str ''Apple'', Obj [(''label'', Str ''Bee'')], Str ''BEE'']\<rparr>"

definition selection_event :: event where
  "selection_event =
     \<lparr>etype = ''selection-changed'', detail = Obj [(''item'', Str ''a'')], bubbles = True,
      composed = False\<rparr>"

definition index_event :: event where
  "index_event =
     \<lparr>etype = ''index-requested'', detail = Obj [(''index'', Num 7)], bubbles = False,
      composed = False\<rparr>"

definition scroll_event :: event where
  "scroll_event = \<lparr>etype = ''scroll'', detail = Null, bubbles = False, composed = False\<rparr>"

text \<open>An event of a relayed type that is no \<open>CustomEvent\<close> and so has no detail.\<close>

definition bare_event :: event where
  "bare_event =
     \<lparr>etype = ''index-requested'', detail = Undefined, bubbles = False, composed = False\<rparr>"

section \<open>Properties\<close>

subsection \<open>Runs of the element\<close>

lemmas run_defs = ready_def superReady_def getFocusedItem_def fresh_def positionTargetChanged_def
  observers_def openedOrItemsChanged_def hasItems_def set_overlayOpened_def openedChanged_def
  Let_def observe_updateScroller_def updateScroller_def set_opened_def set_items_def
  set_loading_def disconnectedCallback_def setOverlayWidth_def dispatchEvent_def
  new_scroller_def openedEvent_def closedEvent_def CustomEvent_def propPrefix_def plain_css_def
  is_name_def

lemmas sample_defs = shown_def detached_def opened_empty_def started_def shown_scroller_def
  stocked_def stocked_scroller_def wide_css_def anchored_def anchored_wide_def listed_def
  selection_event_def index_event_def scroll_event_def bare_event_def focused_def
  restocked_def

lemma setOverlayWidth_kept: "kept s (setOverlayWidth s)"
  by (simp add: kept_def setOverlayWidth_def Let_def split: option.splits)

lemma openedChanged_kept: "openedChanged v w s = Inr s' \<Longrightarrow> kept s s'"
  by (auto simp: kept_def openedChanged_def setOverlayWidth_def dispatchEvent_def Let_def
      split: option.splits if_splits)

lemma openedChanged_returns: "scroller s \<noteq> None \<Longrightarrow> \<exists>s'. openedChanged v w s = Inr s'"
  by (auto simp: openedChanged_def setOverlayWidth_def dispatchEvent_def Let_def
      split: option.splits if_splits)

lemma set_overlayOpened_result:
  assumes "set_overlayOpened v s = Inr s'"
  shows "overlayOpened s' = Some v \<and> opened s' = opened s \<and> items s' = items s \<and>
     loading s' = loading s \<and> emptyItems s' = emptyItems s \<and>
     scrollerListeners s' = scrollerListeners s \<and> (scroller s \<noteq> None \<longrightarrow> scroller s' \<noteq> None)"
proof (cases "overlayOpened s = Some v")
  case True
  with assms show ?thesis by (simp add: set_overlayOpened_def)
next
  case False
  with assms have "openedChanged v (overlayOpened s) (s\<lparr>overlayOpened := Some v\<rparr>) = Inr s'"
    by (simp add: set_overlayOpened_def)
  from openedChanged_kept [OF this] show ?thesis by (simp add: kept_def)
qed

lemma set_overlayOpened_returns: "scroller s \<noteq> None \<Longrightarrow> \<exists>s'. set_overlayOpened v s = Inr s'"
  using openedChanged_returns [of "s\<lparr>overlayOpened := Some v\<rparr>" v "overlayOpened s"]
  by (simp add: set_overlayOpened_def)

lemma observe_updateScroller_kept: "kept s (observe_updateScroller s)"
  by (simp add: kept_def observe_updateScroller_def updateScroller_def split: option.splits)

lemma observers_result:
  assumes "observers s = Inr s'"
  shows "overlaySynced s' \<and> \<not> emptyItems s' \<and> opened s' = opened s \<and> items s' = items s \<and>
     loading s' = loading s \<and> scrollerListeners s' = scrollerListeners s \<and>
     (scroller s \<noteq> None \<longrightarrow> scroller s' \<noteq> None)"
proof -
  let ?s1 = "if \<not> hasItems (items s) then s\<lparr>emptyItems := True\<rparr> else s"
  let ?v = "opened s = Some True \<and> (loading s \<or> hasItems (items s))"
  from assms obtain s2 where a: "set_overlayOpened ?v ?s1 = Inr s2"
    and b: "s' = observe_updateScroller (s2\<lparr>emptyItems := False\<rparr>)"
    by (auto simp: observers_def openedOrItemsChanged_def Let_def split: sum.splits)
  from set_overlayOpened_result [OF a] observe_updateScroller_kept [of "s2\<lparr>emptyItems := False\<rparr>"] b
  show ?thesis by (auto simp: overlaySynced_def kept_def split: if_splits)
qed

lemma observers_returns: "scroller s \<noteq> None \<Longrightarrow> \<exists>s'. observers s = Inr s'"
proof -
  assume sc: "scroller s \<noteq> None"
  define s1 where "s1 = (if \<not> hasItems (items s) then s\<lparr>emptyItems := True\<rparr> else s)"
  define v where "v = (opened s = Some True \<and> (loading s \<or> hasItems (items s)))"
  have "scroller s1 \<noteq> None" using sc by (simp add: s1_def)
  from set_overlayOpened_returns [OF this] obtain s2 where "set_overlayOpened v s1 = Inr s2"
    by blast
  then show ?thesis
    by (simp add: observers_def openedOrItemsChanged_def Let_def s1_def [symmetric] v_def [symmetric])
qed

lemma step_settled:
  assumes "step a s = Inr s'" "settled s"
  shows "settled s'"
proof (cases a)
  case (SetOpened v)
  with assms observers_result [of "s\<lparr>opened := Some v\<rparr>" s'] show ?thesis
    by (auto simp: set_opened_def settled_def split: if_splits)
next
  case (SetItems v)
  with assms observers_result [of "s\<lparr>items := v\<rparr>" s'] show ?thesis
    by (auto simp: set_items_def settled_def split: if_splits)
next
  case (SetLoading v)
  with assms observers_result [of "s\<lparr>loading := v\<rparr>" s'] show ?thesis
    by (auto simp: set_loading_def settled_def split: if_splits)
next
  case (SetFocusedIndex v)
  with assms show ?thesis
    by (auto simp: set_focusedIndex_def settled_def observe_updateScroller_def updateScroller_def
        split: if_splits sum.splits option.splits)
next
  case (SetPositionTarget v)
  with assms setOverlayWidth_kept [of "s\<lparr>positionTarget := v\<rparr>"] show ?thesis
    by (auto simp: set_positionTarget_def positionTargetChanged_def settled_def kept_def
        split: if_splits)
next
  case Detach
  with assms set_overlayOpened_result [of False s s'] show ?thesis
    by (auto simp: disconnectedCallback_def settled_def)
next
  case (ScrollerFires e)
  with assms show ?thesis
    by (auto simp: scrollerFires_def forwardScrollerEvent_def dispatchEvent_def settled_def
        split: if_splits)
qed

lemma step_synced:
  assumes "step a s = Inr s'" "overlaySynced s" "a \<noteq> Detach"
  shows "overlaySynced s'"
proof (cases a)
  case (SetOpened v)
  with assms observers_result [of "s\<lparr>opened := Some v\<rparr>" s'] show ?thesis
    by (auto simp: set_opened_def split: if_splits)
next
  case (SetItems v)
  with assms observers_result [of "s\<lparr>items := v\<rparr>" s'] show ?thesis
    by (auto simp: set_items_def split: if_splits)
next
  case (SetLoading v)
  with assms observers_result [of "s\<lparr>loading := v\<rparr>" s'] show ?thesis
    by (auto simp: set_loading_def split: if_splits)
next
  case (SetFocusedIndex v)
  with assms show ?thesis
    by (auto simp: set_focusedIndex_def overlaySynced_def observe_updateScroller_def
        split: if_splits sum.splits)
next
  case (SetPositionTarget v)
  with assms setOverlayWidth_kept [of "s\<lparr>positionTarget := v\<rparr>"] show ?thesis
    by (auto simp: set_positionTarget_def positionTargetChanged_def overlaySynced_def kept_def
        split: if_splits)
next
  case Detach
  with assms show ?thesis by simp
next
  case (ScrollerFires e)
  with assms show ?thesis
    by (auto simp: scrollerFires_def forwardScrollerEvent_def dispatchEvent_def overlaySynced_def
        split: if_splits)
qed

lemma exec_settled: "exec as s = Inr s' \<Longrightarrow> settled s \<Longrightarrow> settled s'"
  by (induction as arbitrary: s) (auto split: sum.splits dest: step_settled)

lemma exec_synced:
  "exec as s = Inr s' \<Longrightarrow> overlaySynced s \<Longrightarrow> Detach \<notin> set as \<Longrightarrow> overlaySynced s'"
  by (induction as arbitrary: s) (auto split: sum.splits dest: step_synced)

lemma ready_fresh_returns: "\<exists>s0. ready (fresh css) = Inr s0"
  by (simp add: ready_def superReady_def getFocusedItem_def fresh_def positionTargetChanged_def
      observers_def openedOrItemsChanged_def hasItems_def set_overlayOpened_def
      openedChanged_def Let_def)

lemma ready_fresh_start:
  assumes "ready (fresh css) = Inr s0"
  shows "settled s0 \<and> overlaySynced s0 \<and>
    scrollerListeners s0 = [''selection-changed'', ''index-requested''] \<and>
    focusedIndex s0 = - 1 \<and> focusedItem s0 = Undefined \<and> dispatched s0 = []"
  using assms
  by (auto simp add: ready_def superReady_def getFocusedItem_def fresh_def
      positionTargetChanged_def observers_def openedOrItemsChanged_def hasItems_def
      set_overlayOpened_def openedChanged_def Let_def observe_updateScroller_def
      updateScroller_def settled_def overlaySynced_def)

subsection \<open>The overlay follows the inputs\<close>

text \<open>
  C1, as amended. On an element made ready and then driven by any run of property changes
  and scroller events, \<open>_overlayOpened\<close> is true if and only if \<open>opened\<close> is true and
  either \<open>loading\<close> is true or the item list is non-empty, as long as the run holds no
  \<open>disconnectedCallback\<close>. In every state of any run, detached or not, each change of
  \<open>opened\<close>, \<open>loading\<close> or \<open>_items\<close> returns without a fault and leaves the overlay in
  that state: the observer updates it within the assignment. An opened overlay is not
  hidden.
\<close>

theorem overlay_follows_inputs:
  assumes "ready (fresh css) = Inr s0" and "exec as s0 = Inr s"
  shows "(Detach \<notin> set as \<longrightarrow>
            (overlayOpened s = Some True) = (opened s = Some True \<and> (loading s \<or> hasItems (items s))))
    \<and> (opened s \<noteq> Some v \<longrightarrow> (\<exists>s'. set_opened v s = Inr s' \<and> overlaySynced s'))
    \<and> (loading s \<noteq> l \<longrightarrow> (\<exists>s'. set_loading l s = Inr s' \<and> overlaySynced s'))
    \<and> (\<exists>s'. set_items (Some xs) s = Inr s' \<and> overlaySynced s')
    \<and> (overlaySynced s \<and> overlayOpened s = Some True \<longrightarrow> \<not> isOverlayHidden s)"
proof -
  from ready_fresh_start [OF assms(1)] have s0: "settled s0" "overlaySynced s0" by simp_all
  from exec_settled [OF assms(2) s0(1)] have st: "settled s" .
  have "Detach \<notin> set as \<longrightarrow> overlaySynced s"
    using exec_synced [OF assms(2) s0(2)] by blast
  then have a: "Detach \<notin> set as \<longrightarrow>
      (overlayOpened s = Some True) = (opened s = Some True \<and> (loading s \<or> hasItems (items s)))"
    by (auto simp: overlaySynced_def)
  have r: "\<exists>s'. observers t = Inr s' \<and> overlaySynced s'" if "scroller t \<noteq> None" for t
    using observers_returns [OF that] observers_result [of t] by blast
  have b: "opened s \<noteq> Some v \<longrightarrow> (\<exists>s'. set_opened v s = Inr s' \<and> overlaySynced s')"
    using r [of "s\<lparr>opened := Some v\<rparr>"] st by (simp add: set_opened_def settled_def)
  have c: "loading s \<noteq> l \<longrightarrow> (\<exists>s'. set_loading l s = Inr s' \<and> overlaySynced s')"
    using r [of "s\<lparr>loading := l\<rparr>"] st by (simp add: set_loading_def settled_def)
  have d: "\<exists>s'. set_items (Some xs) s = Inr s' \<and> overlaySynced s'"
    using r [of "s\<lparr>items := Some xs\<rparr>"] st by (simp add: set_items_def settled_def)
  have e: "overlaySynced s \<and> overlayOpened s = Some True \<longrightarrow> \<not> isOverlayHidden s"
    by (auto simp: overlaySynced_def isOverlayHidden_def)
  from a b c d e show ?thesis by blast
qed

lemma ready_started: "ready (fresh plain_css) = Inr started"
  by (simp add: started_def run_defs)

lemma exec_shown: "exec [SetItems (Some [Str ''a'']), SetOpened True] started = Inr shown"
  by (simp add: shown_def started_def run_defs)

lemma exec_detached:
  "exec [SetItems (Some [Str ''a'']), SetOpened True, Detach] started = Inr detached"
  by (simp add: detached_def started_def run_defs)

lemma exec_opened_empty: "exec [SetOpened True] started = Inr opened_empty"
  by (simp add: opened_empty_def started_def run_defs)

theorem overlay_follows_inputs_witness:
  "ready (fresh plain_css) = Inr started
   \<and> exec [SetItems (Some [Str ''a'']), SetOpened True] started = Inr shown
   \<and> Detach \<notin> set [SetItems (Some [Str ''a'']), SetOpened True]
   \<and> opened shown \<noteq> Some False \<and> loading shown \<noteq> True
   \<and> overlaySynced shown \<and> overlayOpened shown = Some True
   \<and> (overlayOpened shown = Some True) =
       (opened shown = Some True \<and> (loading shown \<or> hasItems (items shown)))
   \<and> (\<exists>s'. set_opened False shown = Inr s' \<and> overlaySynced s')
   \<and> (\<exists>s'. set_loading True shown = Inr s' \<and> overlaySynced s')
   \<and> (\<exists>s'. set_items (Some []) shown = Inr s' \<and> overlaySynced s')
   \<and> \<not> isOverlayHidden shown"
proof -
  have h: "Detach \<notin> set [SetItems (Some [Str ''a'']), SetOpened True]"
    "opened shown \<noteq> Some False" "loading shown \<noteq> True"
    "overlaySynced shown" "overlayOpened shown = Some True"
    by (simp_all add: overlaySynced_def shown_def started_def run_defs)
  from overlay_follows_inputs [OF ready_started exec_shown, of False True "[]"] h
    ready_started exec_shown
  show ?thesis by blast
qed

text \<open>
  C1 as stated fails after a detach: with one item, \<open>opened\<close> true and the element then
  detached, the inputs say open and \<open>_overlayOpened\<close> is false.
\<close>

theorem overlay_closed_after_detach_counterexample:
  "ready (fresh plain_css) = Inr started
   \<and> exec [SetItems (Some [Str ''a'']), SetOpened True, Detach] started = Inr detached
   \<and> opened detached = Some True
   \<and> items detached = Some [Str ''a'']
   \<and> overlayOpened detached = Some False"
  by (simp add: detached_def started_def run_defs)

subsection \<open>The closed event\<close>

lemma close_with_items:
  assumes "settled s" "opened s = Some True" "hasItems (items s)" "overlayOpened s = Some True"
  shows "\<exists>s'. set_opened False s = Inr s' \<and> dispatched s' = dispatched s @ [closedEvent]"
  using assms
  by (simp add: settled_def set_opened_def observers_def openedOrItemsChanged_def
      set_overlayOpened_def openedChanged_def observe_updateScroller_def dispatchEvent_def Let_def)

lemma close_without_items:
  assumes "settled s" "opened s = Some True" "\<not> hasItems (items s)"
  shows "\<exists>s'. set_opened False s = Inr s' \<and> dispatched s' = dispatched s"
  using assms
  by (simp add: settled_def set_opened_def observers_def openedOrItemsChanged_def
      set_overlayOpened_def openedChanged_def observe_updateScroller_def dispatchEvent_def Let_def)

lemma items_emptied_while_open:
  assumes "settled s" "opened s = Some True" "\<not> loading s" "overlayOpened s = Some True"
  shows "\<exists>s'. set_items (Some []) s = Inr s' \<and> overlayOpened s' = Some False \<and>
     dispatched s' = dispatched s \<and> \<not> emptyItems s'"
  using assms
  by (simp add: settled_def set_items_def observers_def openedOrItemsChanged_def hasItems_def
      set_overlayOpened_def openedChanged_def observe_updateScroller_def dispatchEvent_def Let_def)

text \<open>
  C2, as amended. In any state of a run of the ready element where \<open>opened\<close> is true:
  setting \<open>opened\<close> to false while the item list is non-empty and the overlay is open
  dispatches exactly one \<open>vaadin-combo-box-dropdown-closed\<close> event and nothing else;
  setting it to false while the item list is empty or undefined dispatches no event,
  loading or not; and emptying the item list while the overlay is open and nothing is
  loading closes the overlay without any event and leaves the one-shot flag down again.
\<close>

theorem closed_event_on_toggle:
  assumes "ready (fresh css) = Inr s0" and "exec as s0 = Inr s" and "opened s = Some True"
  shows "(hasItems (items s) \<and> overlayOpened s = Some True \<longrightarrow>
            (\<exists>s'. set_opened False s = Inr s' \<and> dispatched s' = dispatched s @ [closedEvent]))
    \<and> (\<not> hasItems (items s) \<longrightarrow>
            (\<exists>s'. set_opened False s = Inr s' \<and> dispatched s' = dispatched s))
    \<and> (overlayOpened s = Some True \<and> \<not> loading s \<longrightarrow>
            (\<exists>s'. set_items (Some []) s = Inr s' \<and> overlayOpened s' = Some False \<and>
               dispatched s' = dispatched s \<and> \<not> emptyItems s'))"
proof -
  from ready_fresh_start [OF assms(1)] have "settled s0" by simp
  from exec_settled [OF assms(2) this] have st: "settled s" .
  show ?thesis
    using close_with_items [OF st assms(3)] close_without_items [OF st assms(3)]
      items_emptied_while_open [OF st assms(3)]
    by blast
qed

theorem closed_event_on_toggle_witness:
  "ready (fresh plain_css) = Inr started
   \<and> exec [SetItems (Some [Str ''a'']), SetOpened True] started = Inr shown
   \<and> opened shown = Some True \<and> hasItems (items shown) \<and> overlayOpened shown = Some True
   \<and> \<not> loading shown
   \<and> (\<exists>s'. set_opened False shown = Inr s' \<and> dispatched s' = dispatched shown @ [closedEvent])
   \<and> (\<exists>s'. set_items (Some []) shown = Inr s' \<and> overlayOpened s' = Some False \<and>
         dispatched s' = dispatched shown \<and> \<not> emptyItems s')
   \<and> exec [SetOpened True] started = Inr opened_empty
   \<and> opened opened_empty = Some True \<and> \<not> hasItems (items opened_empty)
   \<and> (\<exists>s'. set_opened False opened_empty = Inr s' \<and> dispatched s' = dispatched opened_empty)"
proof -
  have o: "opened shown = Some True"
    by (simp add: shown_def started_def run_defs)
  have h: "hasItems (items shown)" "overlayOpened shown = Some True" "\<not> loading shown"
    by (simp_all add: shown_def started_def run_defs)
  have o': "opened opened_empty = Some True"
    by (simp add: opened_empty_def started_def run_defs)
  have h': "\<not> hasItems (items opened_empty)"
    by (simp add: opened_empty_def started_def run_defs)
  from closed_event_on_toggle [OF ready_started exec_shown o]
    closed_event_on_toggle [OF ready_started exec_opened_empty o']
    o h o' h' ready_started exec_shown exec_opened_empty
  show ?thesis by blast
qed

text \<open>
  C2 as stated fails after a detach: with one item and \<open>opened\<close> true, the detach closes
  the overlay and dispatches the closed event; setting \<open>opened\<close> to false afterwards
  dispatches nothing.
\<close>

theorem toggle_after_detach_counterexample:
  "exec [SetItems (Some [Str ''a'']), SetOpened True, Detach] started = Inr detached
   \<and> opened detached = Some True
   \<and> hasItems (items detached)
   \<and> \<not> isl (set_opened False detached)
   \<and> dispatched (projr (set_opened False detached)) = dispatched detached"
  by (simp add: detached_def started_def run_defs)

subsection \<open>The overlay width\<close>

lemma widthProp_neq: "widthProp s \<noteq> defaultWidthProp s"
proof
  assume "widthProp s = defaultWidthProp s"
  then have "length (widthProp s) = length (defaultWidthProp s)" by simp
  then show False by (simp add: widthProp_def defaultWidthProp_def)
qed

lemma names_kept:
  "widthProp (s\<lparr>overlayStyle := st, overlayPositionUpdates := n\<rparr>) = widthProp s"
  "defaultWidthProp (s\<lparr>overlayStyle := st, overlayPositionUpdates := n\<rparr>) = defaultWidthProp s"
  by (simp_all add: widthProp_def defaultWidthProp_def propPrefix_def)

text \<open>
  C4. Whenever \<open>_setOverlayWidth\<close> runs with a position target present, it records the
  target's client width as the default width; when the computed value of the width
  override is non-empty, the override is set on the overlay and the overlay width is that
  value; when it is the empty string, the override is removed from the overlay and the
  overlay width falls back to the client width of the target. The overlay is told once
  to update its position.
\<close>

theorem overlay_width_source:
  assumes "positionTarget s = Some w"
  shows "overlayStyle (setOverlayWidth s) (defaultWidthProp s) = Some (string_of_nat w @ ''px'')
    \<and> (computedStyle s (widthProp s) \<noteq> [] \<longrightarrow>
          overlayStyle (setOverlayWidth s) (widthProp s) = Some (computedStyle s (widthProp s))
          \<and> overlayWidth (setOverlayWidth s) = computedStyle s (widthProp s))
    \<and> (computedStyle s (widthProp s) = [] \<longrightarrow>
          overlayStyle (setOverlayWidth s) (widthProp s) = None
          \<and> overlayWidth (setOverlayWidth s) = string_of_nat w @ ''px'')
    \<and> overlayPositionUpdates (setOverlayWidth s) = Suc (overlayPositionUpdates s)"
proof (cases "computedStyle s (widthProp s) = []")
  case True
  with assms have "setOverlayWidth s =
      s\<lparr>overlayStyle := (overlayStyle s)(defaultWidthProp s \<mapsto> string_of_nat w @ ''px'',
           widthProp s := None),
        overlayPositionUpdates := Suc (overlayPositionUpdates s)\<rparr>"
    by (simp add: setOverlayWidth_def Let_def)
  with True widthProp_neq [of s] show ?thesis
    by (simp add: overlayWidth_def names_kept)
next
  case False
  with assms have "setOverlayWidth s =
      s\<lparr>overlayStyle := (overlayStyle s)(defaultWidthProp s \<mapsto> string_of_nat w @ ''px'',
           widthProp s \<mapsto> computedStyle s (widthProp s)),
        overlayPositionUpdates := Suc (overlayPositionUpdates s)\<rparr>"
    by (simp add: setOverlayWidth_def Let_def)
  with False widthProp_neq [of s] show ?thesis
    by (simp add: overlayWidth_def names_kept)
qed

theorem overlay_width_source_witness:
  "positionTarget anchored = Some 120 \<and> computedStyle anchored (widthProp anchored) = []
   \<and> overlayStyle (setOverlayWidth anchored) (widthProp anchored) = None
   \<and> overlayWidth (setOverlayWidth anchored) = ''120px''
   \<and> positionTarget anchored_wide = Some 120
   \<and> computedStyle anchored_wide (widthProp anchored_wide) \<noteq> []
   \<and> overlayStyle (setOverlayWidth anchored_wide) (widthProp anchored_wide) = Some ''20em''
   \<and> overlayWidth (setOverlayWidth anchored_wide) = ''20em''
   \<and> overlayStyle (setOverlayWidth anchored_wide) (defaultWidthProp anchored_wide) = Some ''120px''"
proof -
  have a: "positionTarget anchored = Some 120" "computedStyle anchored (widthProp anchored) = []"
    by (simp_all add: sample_defs run_defs widthProp_def)
  have b: "positionTarget anchored_wide = Some 120"
    "computedStyle anchored_wide (widthProp anchored_wide) = ''20em''"
    by (simp_all add: sample_defs run_defs widthProp_def)
  have n: "string_of_nat 120 @ ''px'' = ''120px''"
    by (simp add: string_of_nat.simps digit_char_def)
  from overlay_width_source [OF a(1)] overlay_width_source [OF b(1)] a b n
  show ?thesis by simp
qed

subsection \<open>Absent collaborators\<close>

text \<open>
  C7. Without a scroller \<open>_scrollIntoView\<close> (and \<open>adjustScrollPosition\<close>, which calls
  it) returns the element as it was; without a position target \<open>_setOverlayWidth\<close>
  (and the observer of the position target) returns the element as it was. Neither method
  has a failing branch, and an overlay that opens without a position target opens
  without a fault and with its style untouched.
\<close>

theorem absent_collaborator_noop:
  "(scroller s = None \<longrightarrow> scrollIntoView i s = s \<and> adjustScrollPosition s = s)
   \<and> (positionTarget s = None \<longrightarrow> setOverlayWidth s = s \<and> positionTargetChanged None s = s)
   \<and> (positionTarget s = None \<and> scroller s \<noteq> None \<longrightarrow>
        \<not> isl (openedChanged True w s)
        \<and> overlayStyle (projr (openedChanged True w s)) = overlayStyle s
        \<and> overlayPositionUpdates (projr (openedChanged True w s)) = overlayPositionUpdates s)"
  by (auto simp: scrollIntoView_def adjustScrollPosition_def setOverlayWidth_def
      positionTargetChanged_def openedChanged_def dispatchEvent_def Let_def)

theorem absent_collaborator_noop_witness:
  "scroller (fresh plain_css) = None \<and> positionTarget (fresh plain_css) = None
   \<and> scrollIntoView 3 (fresh plain_css) = fresh plain_css
   \<and> setOverlayWidth (fresh plain_css) = fresh plain_css
   \<and> positionTarget started = None \<and> scroller started \<noteq> None
   \<and> \<not> isl (openedChanged True None started)
   \<and> overlayStyle (projr (openedChanged True None started)) = overlayStyle started"
proof -
  have h: "scroller (fresh plain_css) = None" "positionTarget (fresh plain_css) = None"
    by (simp_all add: fresh_def)
  have k: "positionTarget started = None" "scroller started \<noteq> None"
    by (simp_all add: started_def run_defs)
  from absent_collaborator_noop [of "fresh plain_css" 3 None]
    absent_collaborator_noop [of started 3 None] h k
  show ?thesis by blast
qed

subsection \<open>Relaying the scroller events\<close>






subsection \<open>What the scroller is given\<close>

lemma setOverlayWidth_scroller: "scroller (setOverlayWidth s) = scroller s"
  by (simp add: setOverlayWidth_def Let_def split: option.splits)

lemma openedChanged_gated:
  assumes "openedChanged v w s = Inr s'" "scrollerGated s"
  shows "scrollerGated s'"
proof (cases v)
  case True
  with assms obtain sc m where "scroller (setOverlayWidth s) = Some sc"
    and "s' = dispatchEvent openedEvent ((setOverlayWidth s)\<lparr>scroller := Some (sc\<lparr>maxHeight := m\<rparr>)\<rparr>)"
    by (auto simp: openedChanged_def Let_def split: option.splits)
  with assms(2) show ?thesis
    by (simp add: scrollerGated_def setOverlayWidth_scroller dispatchEvent_def)
next
  case False
  with assms show ?thesis
    by (auto simp: openedChanged_def scrollerGated_def dispatchEvent_def split: if_splits)
qed

lemma set_overlayOpened_gated:
  assumes "set_overlayOpened v s = Inr s'" "scrollerGated s"
  shows "scrollerGated s'"
proof (cases "overlayOpened s = Some v")
  case True
  with assms show ?thesis by (simp add: set_overlayOpened_def)
next
  case False
  with assms have "openedChanged v (overlayOpened s) (s\<lparr>overlayOpened := Some v\<rparr>) = Inr s'"
    by (simp add: set_overlayOpened_def)
  from openedChanged_gated [OF this] assms(2) show ?thesis by (simp add: scrollerGated_def)
qed

lemma observe_updateScroller_gated: "scrollerGated s \<Longrightarrow> scrollerGated (observe_updateScroller s)"
  by (auto simp: scrollerGated_def observe_updateScroller_def updateScroller_def payloadGated_def
      split: option.splits)

lemma observers_gated:
  assumes "observers s = Inr s'" "scrollerGated s"
  shows "scrollerGated s'"
proof -
  let ?s1 = "if \<not> hasItems (items s) then s\<lparr>emptyItems := True\<rparr> else s"
  let ?v = "opened s = Some True \<and> (loading s \<or> hasItems (items s))"
  from assms obtain s2 where a: "set_overlayOpened ?v ?s1 = Inr s2"
    and b: "s' = observe_updateScroller (s2\<lparr>emptyItems := False\<rparr>)"
    by (auto simp: observers_def openedOrItemsChanged_def Let_def split: sum.splits)
  have "scrollerGated ?s1" using assms(2) by (simp add: scrollerGated_def)
  from set_overlayOpened_gated [OF a this] have "scrollerGated (s2\<lparr>emptyItems := False\<rparr>)"
    by (simp add: scrollerGated_def)
  from observe_updateScroller_gated [OF this] b show ?thesis by simp
qed

lemma step_gated:
  assumes "step a s = Inr s'" "scrollerGated s"
  shows "scrollerGated s'"
proof (cases a)
  case (SetOpened v)
  have "scrollerGated (s\<lparr>opened := Some v\<rparr>)" using assms(2) by (simp add: scrollerGated_def)
  with assms SetOpened observers_gated [of "s\<lparr>opened := Some v\<rparr>" s'] show ?thesis
    by (auto simp: set_opened_def split: if_splits)
next
  case (SetItems v)
  have "scrollerGated (s\<lparr>items := v\<rparr>)" using assms(2) by (simp add: scrollerGated_def)
  with assms SetItems observers_gated [of "s\<lparr>items := v\<rparr>" s'] show ?thesis
    by (auto simp: set_items_def split: if_splits)
next
  case (SetLoading v)
  have "scrollerGated (s\<lparr>loading := v\<rparr>)" using assms(2) by (simp add: scrollerGated_def)
  with assms SetLoading observers_gated [of "s\<lparr>loading := v\<rparr>" s'] show ?thesis
    by (auto simp: set_loading_def split: if_splits)
next
  case (SetFocusedIndex v)
  have "scrollerGated (s\<lparr>focusedIndex := v, focusedItem := x\<rparr>)" for x
    using assms(2) by (simp add: scrollerGated_def)
  with assms SetFocusedIndex observe_updateScroller_gated show ?thesis
    by (auto simp: set_focusedIndex_def split: if_splits sum.splits)
next
  case (SetPositionTarget v)
  with assms setOverlayWidth_scroller [of "s\<lparr>positionTarget := v\<rparr>"] show ?thesis
    by (auto simp: set_positionTarget_def positionTargetChanged_def scrollerGated_def
        split: if_splits)
next
  case Detach
  with assms set_overlayOpened_gated [of False s s'] show ?thesis
    by (auto simp: disconnectedCallback_def)
next
  case (ScrollerFires e)
  with assms show ?thesis
    by (auto simp: scrollerFires_def forwardScrollerEvent_def dispatchEvent_def scrollerGated_def
        split: if_splits)
qed

lemma exec_gated: "exec as s = Inr s' \<Longrightarrow> scrollerGated s \<Longrightarrow> scrollerGated s'"
  by (induction as arbitrary: s) (auto split: sum.splits dest: step_gated)

lemma ready_fresh_gated: "ready (fresh css) = Inr s0 \<Longrightarrow> scrollerGated s0"
  by (auto simp add: ready_def superReady_def getFocusedItem_def fresh_def
      positionTargetChanged_def observers_def openedOrItemsChanged_def hasItems_def
      set_overlayOpened_def openedChanged_def Let_def observe_updateScroller_def
      updateScroller_def scrollerGated_def payloadGated_def new_scroller_def)

text \<open>
  C9. Each run of \<open>__updateScroller\<close> with a scroller present pushes one payload whose
  \<open>opened\<close> is the element's and whose items are the element's items when \<open>opened\<close>
  is true and the empty list otherwise; without a scroller it pushes nothing. Hence on
  every run of the ready element, every payload the scroller ever received that does not
  say opened carries the empty list.
\<close>

theorem scroller_items_gated:
  "(\<exists>p. updateScroller (Some sc) its opn ldg sel idp fi rn th = Some (sc\<lparr>pushed := pushed sc @ [p]\<rparr>)
        \<and> sc_opened p = opn \<and> sc_items p = (if opn = Some True then its else Some []))
   \<and> updateScroller None its opn ldg sel idp fi rn th = None
   \<and> (ready (fresh css) = Inr s0 \<and> exec as s0 = Inr s \<and> scroller s = Some sc' \<longrightarrow>
        (\<forall>p \<in> set (pushed sc'). sc_opened p \<noteq> Some True \<longrightarrow> sc_items p = Some []))"
proof -
  have a: "\<exists>p. updateScroller (Some sc) its opn ldg sel idp fi rn th = Some (sc\<lparr>pushed := pushed sc @ [p]\<rparr>)
        \<and> sc_opened p = opn \<and> sc_items p = (if opn = Some True then its else Some [])"
    by (rule exI [of _ "\<lparr>sc_items = (if opn = Some True then its else Some []),
          sc_opened = opn, sc_loading = ldg, sc_selectedItem = sel, sc_itemIdPath = idp,
          sc_focusedIndex = fi, sc_renderer = rn, sc_theme = th\<rparr>"])
      (simp add: updateScroller_def)
  have b: "updateScroller None its opn ldg sel idp fi rn th = None"
    by (simp add: updateScroller_def)
  have c: "\<forall>p \<in> set (pushed sc'). sc_opened p \<noteq> Some True \<longrightarrow> sc_items p = Some []"
    if "ready (fresh css) = Inr s0" "exec as s0 = Inr s" "scroller s = Some sc'"
  proof -
    from exec_gated [OF that(2) ready_fresh_gated [OF that(1)]] that(3)
    show ?thesis by (auto simp: scrollerGated_def payloadGated_def list_all_iff)
  qed
  from a b c show ?thesis by blast
qed

theorem scroller_items_gated_witness:
  "ready (fresh plain_css) = Inr started
   \<and> exec [SetItems (Some [Str ''a'']), SetOpened True] started = Inr shown
   \<and> scroller shown = Some shown_scroller
   \<and> map sc_items (pushed shown_scroller) = [Some [], Some [], Some [Str ''a'']]
   \<and> list_all payloadGated (pushed shown_scroller)"
proof -
  have h: "scroller shown = Some shown_scroller"
    by (simp add: sample_defs run_defs)
  have m: "map sc_items (pushed shown_scroller) = [Some [], Some [], Some [Str ''a'']]"
    by (simp add: sample_defs run_defs)
  from scroller_items_gated [of _ _ _ _ _ _ _ _ _ plain_css started
      "[SetItems (Some [Str ''a'']), SetOpened True]" shown shown_scroller]
    ready_started exec_shown h
  have "\<forall>p \<in> set (pushed shown_scroller). sc_opened p \<noteq> Some True \<longrightarrow> sc_items p = Some []"
    by blast
  then have "list_all payloadGated (pushed shown_scroller)"
    by (auto simp: list_all_iff payloadGated_def)
  with ready_started exec_shown h m show ?thesis by blast
qed

subsection \<open>The focused item\<close>

lemma openedChanged_focus: "openedChanged v w s = Inr s' \<Longrightarrow> focusKept s s'"
  by (auto simp: focusKept_def openedChanged_def setOverlayWidth_def dispatchEvent_def Let_def
      split: option.splits if_splits)

lemma set_overlayOpened_focus:
  assumes "set_overlayOpened v s = Inr s'"
  shows "focusKept s s'"
proof (cases "overlayOpened s = Some v")
  case True
  with assms show ?thesis by (simp add: set_overlayOpened_def focusKept_def)
next
  case False
  with assms have "openedChanged v (overlayOpened s) (s\<lparr>overlayOpened := Some v\<rparr>) = Inr s'"
    by (simp add: set_overlayOpened_def)
  from openedChanged_focus [OF this] show ?thesis by (simp add: focusKept_def)
qed

lemma observers_focus:
  assumes "observers s = Inr s'"
  shows "focusKept s s'"
proof -
  let ?s1 = "if \<not> hasItems (items s) then s\<lparr>emptyItems := True\<rparr> else s"
  let ?v = "opened s = Some True \<and> (loading s \<or> hasItems (items s))"
  from assms obtain s2 where a: "set_overlayOpened ?v ?s1 = Inr s2"
    and b: "s' = observe_updateScroller (s2\<lparr>emptyItems := False\<rparr>)"
    by (auto simp: observers_def openedOrItemsChanged_def Let_def split: sum.splits)
  from set_overlayOpened_focus [OF a] b show ?thesis
    by (auto simp: focusKept_def observe_updateScroller_def split: if_splits)
qed

lemma set_items_focus: "set_items v s = Inr s' \<Longrightarrow> focusKept s s'"
  using observers_focus [of "s\<lparr>items := v\<rparr>" s']
  by (auto simp: set_items_def focusKept_def split: if_splits)

lemma step_unfocused:
  assumes "step a s = Inr s'" "focusedIndex s < 0 \<longrightarrow> focusedItem s = Undefined"
  shows "focusedIndex s' < 0 \<longrightarrow> focusedItem s' = Undefined"
proof (cases a)
  case (SetOpened v)
  with assms observers_focus [of "s\<lparr>opened := Some v\<rparr>" s'] show ?thesis
    by (auto simp: set_opened_def focusKept_def split: if_splits)
next
  case (SetItems v)
  with assms set_items_focus [of v s s'] show ?thesis
    by (auto simp: focusKept_def)
next
  case (SetLoading v)
  with assms observers_focus [of "s\<lparr>loading := v\<rparr>" s'] show ?thesis
    by (auto simp: set_loading_def focusKept_def split: if_splits)
next
  case (SetFocusedIndex v)
  with assms show ?thesis
    by (auto simp: set_focusedIndex_def getFocusedItem_def observe_updateScroller_def
        split: if_splits sum.splits option.splits)
next
  case (SetPositionTarget v)
  with assms show ?thesis
    by (auto simp: set_positionTarget_def positionTargetChanged_def setOverlayWidth_def Let_def
        split: if_splits option.splits)
next
  case Detach
  with assms set_overlayOpened_focus [of False s s'] show ?thesis
    by (auto simp: disconnectedCallback_def focusKept_def)
next
  case (ScrollerFires e)
  with assms show ?thesis
    by (auto simp: scrollerFires_def forwardScrollerEvent_def dispatchEvent_def split: if_splits)
qed

lemma exec_unfocused:
  "exec as s = Inr s' \<Longrightarrow> focusedIndex s < 0 \<longrightarrow> focusedItem s = Undefined \<Longrightarrow>
   focusedIndex s' < 0 \<longrightarrow> focusedItem s' = Undefined"
proof (induction as arbitrary: s)
  case Nil
  then show ?case by simp
next
  case (Cons a as)
  from Cons.prems(1) obtain s1 where a: "step a s = Inr s1" and b: "exec as s1 = Inr s'"
    by (auto split: sum.splits)
  from Cons.IH [OF b step_unfocused [OF a Cons.prems(2)]] show ?case .
qed

text \<open>
  C8, as amended. \<open>_focusedIndex\<close> is one integer, \<open>-1\<close> on the element as constructed
  and after \<open>ready()\<close>, where \<open>focusedItem\<close> is undefined. \<open>focusedItem\<close> is computed
  when \<open>_focusedIndex\<close> is assigned a new value: for an index below 0
  \<open>_getFocusedItem\<close> gives undefined; for an index from 0 on, with \<open>_items\<close> an
  array, it gives \<open>_items[index]\<close> as it is then, the element at that index and
  undefined past the end; with \<open>_items\<close> undefined the lookup raises. Replacing
  \<open>_items\<close> leaves \<open>_focusedIndex\<close> and \<open>focusedItem\<close> as they were. In every state
  of every run of the ready element, a focused index below 0 goes with an undefined
  \<open>focusedItem\<close>.
\<close>

theorem focused_item_of_index:
  "focusedIndex (fresh css) = - 1
   \<and> (idx < 0 \<longrightarrow> getFocusedItem idx s = Inr Undefined)
   \<and> (0 \<le> idx \<and> items s = Some xs \<longrightarrow> getFocusedItem idx s = Inr (js_index xs idx))
   \<and> (0 \<le> idx \<and> idx < int (length xs) \<and> items s = Some xs \<longrightarrow>
        getFocusedItem idx s = Inr (xs ! nat idx))
   \<and> (0 \<le> idx \<and> items s = None \<longrightarrow> getFocusedItem idx s = Inl TypeError)
   \<and> (idx \<noteq> focusedIndex s \<and> (idx < 0 \<or> items s \<noteq> None) \<longrightarrow>
        (\<exists>s'. set_focusedIndex idx s = Inr s' \<and> focusedIndex s' = idx \<and> items s' = items s
           \<and> getFocusedItem idx s = Inr (focusedItem s')))
   \<and> (ready (fresh css) = Inr r \<longrightarrow> focusedIndex r = - 1 \<and> focusedItem r = Undefined)
   \<and> (set_items v s = Inr u \<longrightarrow>
        focusedIndex u = focusedIndex s \<and> focusedItem u = focusedItem s)
   \<and> (ready (fresh css) = Inr r \<and> exec as r = Inr t \<and> focusedIndex t < 0 \<longrightarrow>
        focusedItem t = Undefined)"
proof -
  have e: "idx \<noteq> focusedIndex s \<and> (idx < 0 \<or> items s \<noteq> None) \<longrightarrow>
        (\<exists>s'. set_focusedIndex idx s = Inr s' \<and> focusedIndex s' = idx \<and> items s' = items s
           \<and> getFocusedItem idx s = Inr (focusedItem s'))"
    by (auto simp: set_focusedIndex_def getFocusedItem_def observe_updateScroller_def)
  have f: "ready (fresh css) = Inr r \<longrightarrow> focusedIndex r = - 1 \<and> focusedItem r = Undefined"
    using ready_fresh_start [of css r] by blast
  have g: "set_items v s = Inr u \<longrightarrow>
        focusedIndex u = focusedIndex s \<and> focusedItem u = focusedItem s"
    using set_items_focus [of v s u] by (simp add: focusKept_def)
  have h: "focusedItem t = Undefined"
    if "ready (fresh css) = Inr r" "exec as r = Inr t" "focusedIndex t < 0"
  proof -
    from ready_fresh_start [OF that(1)]
    have "focusedIndex r < 0 \<longrightarrow> focusedItem r = Undefined" by simp
    from exec_unfocused [OF that(2) this] that(3) show ?thesis by simp
  qed
  have i: "focusedIndex (fresh css) = - 1
   \<and> (idx < 0 \<longrightarrow> getFocusedItem idx s = Inr Undefined)
   \<and> (0 \<le> idx \<and> items s = Some xs \<longrightarrow> getFocusedItem idx s = Inr (js_index xs idx))
   \<and> (0 \<le> idx \<and> idx < int (length xs) \<and> items s = Some xs \<longrightarrow>
        getFocusedItem idx s = Inr (xs ! nat idx))
   \<and> (0 \<le> idx \<and> items s = None \<longrightarrow> getFocusedItem idx s = Inl TypeError)"
    by (simp add: fresh_def getFocusedItem_def js_index_def)
  from e f g h i show ?thesis by blast
qed

lemma exec_focused:
  "exec [SetItems (Some [Str ''a'', Str ''b'']), SetFocusedIndex 1] started = Inr focused"
  by (simp add: focused_def started_def run_defs set_focusedIndex_def js_index_def)

lemma exec_restocked:
  "exec [SetItems (Some [Str ''a'', Str ''b'']), SetFocusedIndex 1,
         SetItems (Some [Str ''x'', Str ''y''])] started = Inr restocked"
  by (simp add: restocked_def started_def run_defs set_focusedIndex_def js_index_def)

theorem focused_item_of_index_witness:
  "items listed = Some [Str ''Apple'', Obj [(''label'', Str ''Bee'')], Str ''BEE'']
   \<and> focusedIndex listed \<noteq> 1
   \<and> getFocusedItem (- 1) listed = Inr Undefined
   \<and> getFocusedItem 1 listed = Inr (Obj [(''label'', Str ''Bee'')])
   \<and> getFocusedItem 3 listed = Inr Undefined
   \<and> (\<exists>s'. set_focusedIndex 1 listed = Inr s' \<and> focusedIndex s' = 1
         \<and> focusedItem s' = Obj [(''label'', Str ''Bee'')])
   \<and> ready (fresh plain_css) = Inr started \<and> focusedItem started = Undefined
   \<and> items started = None \<and> getFocusedItem 0 started = Inl TypeError
   \<and> set_items (Some [Str ''x'', Str ''y'']) focused = Inr restocked
   \<and> focusedIndex restocked = focusedIndex focused
   \<and> focusedItem restocked = focusedItem focused
   \<and> exec [SetOpened True] started = Inr opened_empty
   \<and> focusedIndex opened_empty < 0 \<and> focusedItem opened_empty = Undefined"
proof -
  let ?xs = "[Str ''Apple'', Obj [(''label'', Str ''Bee'')], Str ''BEE'']"
  have h: "items listed = Some ?xs" "focusedIndex listed \<noteq> 1"
    using ready_fresh_start [OF ready_started] by (simp_all add: listed_def)
  have n: "items started = None"
    by (simp add: started_def run_defs)
  have q: "set_items (Some [Str ''x'', Str ''y'']) focused = Inr restocked"
    using exec_focused exec_restocked by (simp split: sum.splits)
  have o: "focusedIndex opened_empty < 0"
    by (simp add: opened_empty_def started_def run_defs)
  have 1: "getFocusedItem (- 1) listed = Inr Undefined"
    using focused_item_of_index [where idx = "- 1" and s = listed] by simp
  have 2: "getFocusedItem 1 listed = Inr (Obj [(''label'', Str ''Bee'')])"
    using focused_item_of_index [where idx = 1 and s = listed and xs = ?xs] h
    by (simp add: js_index_def)
  have 3: "getFocusedItem 3 listed = Inr Undefined"
    using focused_item_of_index [where idx = 3 and s = listed and xs = ?xs] h
    by (simp add: js_index_def)
  have pre: "1 \<noteq> focusedIndex listed \<and> ((1::int) < 0 \<or> items listed \<noteq> None)"
    using h by simp
  have "\<exists>s'. set_focusedIndex 1 listed = Inr s' \<and> focusedIndex s' = 1
      \<and> items s' = items listed \<and> getFocusedItem 1 listed = Inr (focusedItem s')"
    using focused_item_of_index [where idx = 1 and s = listed] pre by blast
  with 2 have 4: "\<exists>s'. set_focusedIndex 1 listed = Inr s' \<and> focusedIndex s' = 1
      \<and> focusedItem s' = Obj [(''label'', Str ''Bee'')]"
    by auto
  have 5: "focusedItem started = Undefined"
    using focused_item_of_index [where css = plain_css and r = started] ready_started by blast
  have 6: "getFocusedItem 0 started = Inl TypeError"
    using focused_item_of_index [where idx = 0 and s = started] n by simp
  have 7: "focusedIndex restocked = focusedIndex focused \<and> focusedItem restocked = focusedItem focused"
    using focused_item_of_index [where s = focused and v = "Some [Str ''x'', Str ''y'']"
        and u = restocked] q by blast
  have 8: "focusedItem opened_empty = Undefined"
    using focused_item_of_index [where css = plain_css and r = started
        and as = "[SetOpened True]" and t = opened_empty] ready_started exec_opened_empty o
    by blast
  from h n q o 1 2 3 4 5 6 7 8 ready_started exec_opened_empty show ?thesis by blast
qed

text \<open>
  C8 as stated fails once the items are replaced: with the items \<open>a, b\<close>, the focused
  index 1 and then the items \<open>x, y\<close>, the index is still 1 and \<open>focusedItem\<close> is still
  \<open>b\<close>, while the element of \<open>_items\<close> at index 1 is \<open>y\<close>.
\<close>

theorem stale_focused_item_counterexample:
  "exec [SetItems (Some [Str ''a'', Str ''b'']), SetFocusedIndex 1,
         SetItems (Some [Str ''x'', Str ''y''])] started = Inr restocked
   \<and> focusedIndex restocked = 1
   \<and> items restocked = Some [Str ''x'', Str ''y'']
   \<and> focusedItem restocked = Str ''b''
   \<and> js_index [Str ''x'', Str ''y''] (focusedIndex restocked) = Str ''y''"
  by (simp add: restocked_def started_def run_defs set_focusedIndex_def js_index_def)

subsection \<open>Scrolling to an index\<close>

text \<open>
  C3. With a scroller present, \<open>scrollToIndex\<close> returns without a fault for every
  index and every number of items, and the virtualizer never raises. Over \<open>N > 0\<close> items
  the index scrolled to lies in \<open>[0, N)\<close>, no index of that range is nearer to the
  requested one, and a requested index within the range is kept.
\<close>

theorem scrollToIndex_clamps:
  assumes "scroller s = Some sc"
  shows "(\<exists>s'. scrollToIndex s i = Inr s')
    \<and> \<not> isl (virtualizer_scrollToIndex N i)
    \<and> (0 < scrollerSize sc \<longrightarrow>
         (\<exists>t. scrollToIndex s i = Inr (s\<lparr>scroller := Some (sc\<lparr>scrolledTo := Some t\<rparr>)\<rparr>)
            \<and> 0 \<le> t \<and> t < int (scrollerSize sc)
            \<and> (\<forall>j. 0 \<le> j \<and> j < int (scrollerSize sc) \<longrightarrow> \<bar>t - i\<bar> \<le> \<bar>j - i\<bar>)
            \<and> (0 \<le> i \<and> i < int (scrollerSize sc) \<longrightarrow> t = i)))"
proof -
  have a: "\<exists>s'. scrollToIndex s i = Inr s'"
    using assms by (simp add: scrollToIndex_def virtualizer_scrollToIndex_def)
  have b: "\<not> isl (virtualizer_scrollToIndex N i)"
    by (simp add: virtualizer_scrollToIndex_def)
  have c: "\<exists>t. scrollToIndex s i = Inr (s\<lparr>scroller := Some (sc\<lparr>scrolledTo := Some t\<rparr>)\<rparr>)
            \<and> 0 \<le> t \<and> t < int (scrollerSize sc)
            \<and> (\<forall>j. 0 \<le> j \<and> j < int (scrollerSize sc) \<longrightarrow> \<bar>t - i\<bar> \<le> \<bar>j - i\<bar>)
            \<and> (0 \<le> i \<and> i < int (scrollerSize sc) \<longrightarrow> t = i)"
    if "0 < scrollerSize sc"
  proof (rule exI [of _ "max 0 (min (int (scrollerSize sc) - 1) i)"], intro conjI)
    show "scrollToIndex s i = Inr (s\<lparr>scroller := Some (sc\<lparr>scrolledTo := Some (max 0 (min (int (scrollerSize sc) - 1) i))\<rparr>)\<rparr>)"
      using assms that by (simp add: scrollToIndex_def virtualizer_scrollToIndex_def)
    show "0 \<le> max 0 (min (int (scrollerSize sc) - 1) i)" by simp
    show "max 0 (min (int (scrollerSize sc) - 1) i) < int (scrollerSize sc)" using that by simp
    show "\<forall>j. 0 \<le> j \<and> j < int (scrollerSize sc) \<longrightarrow>
        \<bar>max 0 (min (int (scrollerSize sc) - 1) i) - i\<bar> \<le> \<bar>j - i\<bar>" by auto
    show "0 \<le> i \<and> i < int (scrollerSize sc) \<longrightarrow> max 0 (min (int (scrollerSize sc) - 1) i) = i"
      by auto
  qed
  from a b c show ?thesis by blast
qed

theorem scrollToIndex_clamps_witness:
  "scroller stocked = Some stocked_scroller \<and> scrollerSize stocked_scroller = 3
   \<and> scrollToIndex stocked 7 =
        Inr (stocked\<lparr>scroller := Some (stocked_scroller\<lparr>scrolledTo := Some 2\<rparr>)\<rparr>)
   \<and> scrollToIndex stocked (- 2) =
        Inr (stocked\<lparr>scroller := Some (stocked_scroller\<lparr>scrolledTo := Some 0\<rparr>)\<rparr>)
   \<and> scrollToIndex stocked 1 =
        Inr (stocked\<lparr>scroller := Some (stocked_scroller\<lparr>scrolledTo := Some 1\<rparr>)\<rparr>)"
proof -
  let ?N = "int (scrollerSize stocked_scroller)"
  let ?to = "\<lambda>t. Inr (stocked\<lparr>scroller := Some (stocked_scroller\<lparr>scrolledTo := Some t\<rparr>)\<rparr>)"
  have h: "scroller stocked = Some stocked_scroller"
    by (simp add: sample_defs run_defs)
  have n: "scrollerSize stocked_scroller = 3"
    by (simp add: scrollerSize_def sample_defs run_defs)
  then have c: "0 < scrollerSize stocked_scroller" by simp
  from scrollToIndex_clamps [OF h, of 7 0] c obtain t where
    t: "scrollToIndex stocked 7 = ?to t" "0 \<le> t" "t < ?N"
      "\<forall>j. 0 \<le> j \<and> j < ?N \<longrightarrow> \<bar>t - 7\<bar> \<le> \<bar>j - 7\<bar>"
    by blast
  from t(4) [rule_format, of 2] n have "\<bar>t - 7\<bar> \<le> \<bar>2 - 7\<bar>" by simp
  with t(2,3) n have t2: "t = 2" by simp
  from scrollToIndex_clamps [OF h, of "- 2" 0] c obtain u where
    u: "scrollToIndex stocked (- 2) = ?to u" "0 \<le> u" "u < ?N"
      "\<forall>j. 0 \<le> j \<and> j < ?N \<longrightarrow> \<bar>u - (- 2)\<bar> \<le> \<bar>j - (- 2)\<bar>"
    by blast
  from u(4) [rule_format, of 0] n have "\<bar>u - (- 2)\<bar> \<le> \<bar>0 - (- 2)\<bar>" by simp
  with u(2,3) have u0: "u = 0" by simp
  from scrollToIndex_clamps [OF h, of 1 0] c obtain v where
    v: "scrollToIndex stocked 1 = ?to v" "0 \<le> (1::int) \<and> 1 < ?N \<longrightarrow> v = 1"
    by blast
  from v(2) n have v1: "v = 1" by simp
  from t(1) t2 u(1) u0 v(1) v1 h n show ?thesis by simp
qed

subsection \<open>Item labels\<close>

lemmas label_defs = getItemLabel_def labelPath_def truthy_path_def ownProperty_def
  loweredLabel_def lowered_def toLowerCase_def lower_char_def labelMatches_def
  string_of_int_def string_of_nat.simps digit_char_def Let_def

lemma started_labelPath: "itemLabelPath started = Some ''label''"
  by (simp add: started_def run_defs)

lemma toString_raises:
  "isl (js_toString v) = (v = Undefined \<or> v = Null \<or> shadowsToString v)"
  "isl (js_join xs) = (\<exists>x \<in> set xs. shadowsToString x)"
  by (induction v and xs rule: js_toString_js_join.induct) (auto split: sum.splits)

lemma truthy_defined: "truthy v \<Longrightarrow> v \<noteq> Undefined \<and> v \<noteq> Null"
  by (cases v) auto

text \<open>
  C6, as amended. The label path is the argument when it is a non-empty string and
  \<open>_itemLabelPath\<close> otherwise. For a truthy item and a non-empty path whose value is
  neither undefined nor null, \<open>getItemLabel\<close> returns that value. For every falsy item
  (undefined, null, false, 0, the empty string) it returns the empty string. For a truthy
  item without such a value it returns \<open>item.toString()\<close>. It raises only for a truthy
  item whose string conversion raises: an object with an own \<open>toString\<close> property,
  alone or within an array.
\<close>

theorem getItemLabel_amended:
  "(truthy item \<and> labelPath s p = Some q \<and> q \<noteq> [] \<and> get q item \<noteq> Undefined \<and> get q item \<noteq> Null \<longrightarrow>
       getItemLabel get s item p = Inr (get q item))
   \<and> (\<not> truthy item \<longrightarrow> getItemLabel get s item p = Inr (Str []))
   \<and> (truthy item \<and> (labelPath s p = None \<or> labelPath s p = Some [] \<or>
         (labelPath s p = Some q \<and> (get q item = Undefined \<or> get q item = Null))) \<longrightarrow>
       getItemLabel get s item p =
         (case js_toString item of Inl e \<Rightarrow> Inl e | Inr str \<Rightarrow> Inr (Str str)))
   \<and> (isl (getItemLabel get s item p) \<longrightarrow> truthy item \<and> shadowsToString item)
   \<and> (labelPath s p = (if truthy_path p then p else itemLabelPath s))"
proof -
  have r: "isl (getItemLabel get s item p) \<longrightarrow> truthy item \<and> shadowsToString item"
    using toString_raises(1) [of item] truthy_defined [of item]
    by (auto simp: getItemLabel_def Let_def split: option.splits sum.splits if_splits)
  show ?thesis
    using r by (auto simp: getItemLabel_def labelPath_def Let_def split: option.splits)
qed

theorem getItemLabel_amended_witness:
  "truthy (Obj [(''label'', Str ''Bee'')]) \<and> labelPath started None = Some ''label''
   \<and> getItemLabel ownProperty started (Obj [(''label'', Str ''Bee'')]) None = Inr (Str ''Bee'')
   \<and> \<not> truthy Null \<and> getItemLabel ownProperty started Null None = Inr (Str [])
   \<and> truthy (Str ''Apple'') \<and> ownProperty ''label'' (Str ''Apple'') = Undefined
   \<and> getItemLabel ownProperty started (Str ''Apple'') None = Inr (Str ''Apple'')
   \<and> isl (getItemLabel ownProperty started (Obj [(''toString'', Num 1)]) None)
   \<and> shadowsToString (Obj [(''toString'', Num 1)])"
proof -
  have p: "labelPath started None = Some ''label''"
    by (simp add: labelPath_def truthy_path_def started_labelPath)
  have a: "truthy (Obj [(''label'', Str ''Bee'')])" "''label'' \<noteq> []"
    "ownProperty ''label'' (Obj [(''label'', Str ''Bee'')]) = Str ''Bee''"
    by (simp_all add: ownProperty_def)
  have b: "\<not> truthy Null" by simp
  have c: "truthy (Str ''Apple'')" "ownProperty ''label'' (Str ''Apple'') = Undefined"
    "js_toString (Str ''Apple'') = Inr ''Apple''"
    by (simp_all add: ownProperty_def)
  have d: "isl (getItemLabel ownProperty started (Obj [(''toString'', Num 1)]) None)"
    by (simp add: label_defs started_labelPath)
  from getItemLabel_amended [of "Obj [(''label'', Str ''Bee'')]" started None "''label''" ownProperty]
    getItemLabel_amended [of Null started None "''label''" ownProperty]
    getItemLabel_amended [of "Str ''Apple''" started None "''label''" ownProperty]
    getItemLabel_amended [of "Obj [(''toString'', Num 1)]" started None "''label''" ownProperty]
    p a b c d
  show ?thesis by simp
qed

text \<open>
  C6 as stated fails on the items 0 and false, which are present, not found at the label
  path, and yield the empty string where their string coercions are \<open>0\<close> and
  \<open>false\<close>; and on an object that shadows \<open>toString\<close>, where the call raises.
\<close>

theorem getItemLabel_zero_counterexample:
  "getItemLabel ownProperty started (Num 0) None = Inr (Str [])
   \<and> js_toString (Num 0) = Inr ''0''
   \<and> getItemLabel ownProperty started (Bool False) None = Inr (Str [])
   \<and> js_toString (Bool False) = Inr ''false''
   \<and> getItemLabel ownProperty started (Obj [(''toString'', Num 1)]) None = Inl TypeError"
  by (simp add: label_defs started_labelPath)

subsection \<open>Searching a label\<close>

lemma loop_finds:
  assumes "indexOfLabel_loop get s label xs i = Inr r"
  shows "(r = - 1 \<and> (\<forall>j. i \<le> j \<and> j < length xs \<longrightarrow> \<not> labelMatches get s label (xs ! j)))
    \<or> (\<exists>k. r = int k \<and> i \<le> k \<and> k < length xs \<and> labelMatches get s label (xs ! k)
          \<and> (\<forall>j. i \<le> j \<and> j < k \<longrightarrow> \<not> labelMatches get s label (xs ! j)))"
  using assms
proof (induction get s label xs i rule: indexOfLabel_loop.induct)
  case (1 get s label xs i)
  show ?case
  proof (cases "i < length xs")
    case False
    with "1.prems" show ?thesis by (auto simp: indexOfLabel_loop.simps)
  next
    case True
    with "1.prems" obtain a b where a: "loweredLabel get s (xs ! i) = Inr a"
      and b: "lowered label = Inr b"
      and c: "(if a = b then Inr (int i) else indexOfLabel_loop get s label xs (Suc i)) = Inr r"
      by (subst (asm) indexOfLabel_loop.simps) (auto split: sum.splits)
    show ?thesis
    proof (cases "a = b")
      case eq: True
      with a b c True have "r = int i \<and> labelMatches get s label (xs ! i)"
        by (simp add: labelMatches_def)
      with True show ?thesis by auto
    next
      case ne: False
      with c have rec: "indexOfLabel_loop get s label xs (Suc i) = Inr r" by simp
      from a b ne have nm: "\<not> labelMatches get s label (xs ! i)"
        by (simp add: labelMatches_def)
      have step: "\<not> labelMatches get s label (xs ! j)" if "i \<le> j" "j < k" "\<forall>j. Suc i \<le> j \<and> j < k \<longrightarrow> \<not> labelMatches get s label (xs ! j)" for j k
        using that nm by (cases "j = i") auto
      from "1.IH" [OF True a b ne rec] show ?thesis
      proof
        assume h: "r = - 1 \<and> (\<forall>j. Suc i \<le> j \<and> j < length xs \<longrightarrow> \<not> labelMatches get s label (xs ! j))"
        then have "\<forall>j. i \<le> j \<and> j < length xs \<longrightarrow> \<not> labelMatches get s label (xs ! j)"
          using step [of _ "length xs"] by blast
        with h show ?thesis by blast
      next
        assume "\<exists>k. r = int k \<and> Suc i \<le> k \<and> k < length xs \<and> labelMatches get s label (xs ! k)
          \<and> (\<forall>j. Suc i \<le> j \<and> j < k \<longrightarrow> \<not> labelMatches get s label (xs ! j))"
        then obtain k where k: "r = int k" "Suc i \<le> k" "k < length xs" "labelMatches get s label (xs ! k)"
          "\<forall>j. Suc i \<le> j \<and> j < k \<longrightarrow> \<not> labelMatches get s label (xs ! j)" by blast
        then have "\<forall>j. i \<le> j \<and> j < k \<longrightarrow> \<not> labelMatches get s label (xs ! j)"
          using step [of _ k] by blast
        with k show ?thesis by (intro disjI2 exI [of _ k]) auto
      qed
    qed
  qed
qed

lemma loop_returns:
  assumes "\<forall>x \<in> set xs. \<not> isl (loweredLabel get s x)" "\<not> isl (lowered label)"
  shows "\<exists>r. indexOfLabel_loop get s label xs i = Inr r"
  using assms
proof (induction get s label xs i rule: indexOfLabel_loop.induct)
  case (1 get s label xs i)
  show ?case
  proof (cases "i < length xs")
    case False
    then show ?thesis by (simp add: indexOfLabel_loop.simps)
  next
    case True
    then have "xs ! i \<in> set xs" by simp
    with "1.prems" obtain a b where a: "loweredLabel get s (xs ! i) = Inr a"
      and b: "lowered label = Inr b"
      by (metis sum.collapse(2))
    show ?thesis
    proof (cases "a = b")
      case eq: True
      with a b True show ?thesis by (subst indexOfLabel_loop.simps) simp
    next
      case ne: False
      from "1.IH" [OF True a b ne "1.prems"] a b ne True show ?thesis
        by (subst indexOfLabel_loop.simps) simp
    qed
  qed
qed

text \<open>
  C10. \<open>indexOfLabel\<close> returns \<open>-1\<close> when \<open>_items\<close> is undefined or the label is
  falsy. With items and a truthy label, whatever it returns is either \<open>-1\<close>, and then
  no item's label equals the label with case set aside, or the smallest index whose item's
  label does. It returns whenever the string conversions of the labels do not raise.
\<close>

theorem indexOfLabel_first_match:
  "(items s = None \<or> \<not> truthy label \<longrightarrow> indexOfLabel get s label = Inr (- 1))
   \<and> (items s = Some xs \<and> truthy label \<and> indexOfLabel get s label = Inr r \<longrightarrow>
        (r = - 1 \<and> (\<forall>j < length xs. \<not> labelMatches get s label (xs ! j)))
        \<or> (\<exists>k. r = int k \<and> k < length xs \<and> labelMatches get s label (xs ! k)
              \<and> (\<forall>j < k. \<not> labelMatches get s label (xs ! j))))
   \<and> (items s = Some xs \<and> truthy label \<and> (\<forall>x \<in> set xs. \<not> isl (loweredLabel get s x))
        \<and> \<not> isl (lowered label) \<longrightarrow> (\<exists>r. indexOfLabel get s label = Inr r))"
proof -
  have a: "items s = None \<or> \<not> truthy label \<longrightarrow> indexOfLabel get s label = Inr (- 1)"
    by (auto simp: indexOfLabel_def split: option.splits)
  have b: "(r = - 1 \<and> (\<forall>j < length xs. \<not> labelMatches get s label (xs ! j)))
        \<or> (\<exists>k. r = int k \<and> k < length xs \<and> labelMatches get s label (xs ! k)
              \<and> (\<forall>j < k. \<not> labelMatches get s label (xs ! j)))"
    if "items s = Some xs" "truthy label" "indexOfLabel get s label = Inr r"
  proof -
    from that have "indexOfLabel_loop get s label xs 0 = Inr r" by (simp add: indexOfLabel_def)
    from loop_finds [OF this] show ?thesis by simp
  qed
  have c: "\<exists>r. indexOfLabel get s label = Inr r"
    if "items s = Some xs" "truthy label" "\<forall>x \<in> set xs. \<not> isl (loweredLabel get s x)" "\<not> isl (lowered label)"
    using loop_returns [OF that(3,4), of 0] that(1,2) by (simp add: indexOfLabel_def)
  from a b c show ?thesis by blast
qed

theorem indexOfLabel_first_match_witness:
  "items started = None \<and> indexOfLabel ownProperty started (Str ''bEE'') = Inr (- 1)
   \<and> items listed = Some [Str ''Apple'', Obj [(''label'', Str ''Bee'')], Str ''BEE'']
   \<and> truthy (Str ''bEE'')
   \<and> \<not> isl (loweredLabel ownProperty listed (Str ''Apple''))
   \<and> \<not> isl (loweredLabel ownProperty listed (Obj [(''label'', Str ''Bee'')]))
   \<and> \<not> isl (loweredLabel ownProperty listed (Str ''BEE''))
   \<and> \<not> isl (lowered (Str ''bEE''))
   \<and> indexOfLabel ownProperty listed (Str ''bEE'') = Inr 1
   \<and> labelMatches ownProperty listed (Str ''bEE'') (Obj [(''label'', Str ''Bee'')])
   \<and> \<not> labelMatches ownProperty listed (Str ''bEE'') (Str ''Apple'')"
proof -
  let ?xs = "[Str ''Apple'', Obj [(''label'', Str ''Bee'')], Str ''BEE'']"
  have l: "itemLabelPath listed = Some ''label''"
    by (simp add: listed_def started_labelPath)
  have a: "items started = None"
    by (simp add: started_def run_defs)
  have b: "items listed = Some ?xs" "truthy (Str ''bEE'')"
    by (simp_all add: listed_def)
  have c: "\<not> isl (loweredLabel ownProperty listed (Str ''Apple''))"
    "\<not> isl (loweredLabel ownProperty listed (Obj [(''label'', Str ''Bee'')]))"
    "\<not> isl (loweredLabel ownProperty listed (Str ''BEE''))"
    "\<not> isl (lowered (Str ''bEE''))"
    by (simp_all add: label_defs l)
  from indexOfLabel_first_match [of started "Str ''bEE''" ownProperty] a
  have n: "indexOfLabel ownProperty started (Str ''bEE'') = Inr (- 1)" by blast
  from indexOfLabel_first_match [of listed "Str ''bEE''" ownProperty ?xs] b c
  obtain r where r: "indexOfLabel ownProperty listed (Str ''bEE'') = Inr r" by auto
  have r1: "indexOfLabel ownProperty listed (Str ''bEE'') = Inr 1"
    by (simp add: indexOfLabel_def indexOfLabel_loop.simps label_defs l b)
  from indexOfLabel_first_match [of listed "Str ''bEE''" ownProperty ?xs 1] b r1
  obtain k where k: "(1::int) = int k"
    "labelMatches ownProperty listed (Str ''bEE'') (?xs ! k)"
    "\<forall>j < k. \<not> labelMatches ownProperty listed (Str ''bEE'') (?xs ! j)"
    by auto
  from k(1) have "k = 1" by simp
  with k have m: "labelMatches ownProperty listed (Str ''bEE'') (Obj [(''label'', Str ''Bee'')])"
    "\<not> labelMatches ownProperty listed (Str ''bEE'') (Str ''Apple'')"
    by auto
  from r1 n a b c m show ?thesis by simp
qed

end
